theory Spec2Isabelle
  imports Complex_Main "HOL-Library.Sublist"
begin

section \<open>Values shared by the modules\<close>

text \<open>
  A thrown value is an \<open>Error\<close> object; only its \<open>message\<close> is ever read
  (\<open>error.message\<close> in \<open>withDatabase\<close>).  An \<open>await\<close> either hands back a value
  or throws.
\<close>

datatype js_error = Error (message: string)

datatype 'a completion = Return 'a | Throw js_error

section \<open>The connection cache (utils/dbConnection.js)\<close>

text \<open>
  \<open>mongoose.connect\<close> resolves to a handle; the module keeps it in the module variable
  \<open>cachedConnection\<close> (\<open>null\<close> is \<open>None\<close>).  The driver owns
  \<open>mongoose.connection.readyState\<close> and the list of observers registered with
  \<open>mongoose.connection.on\<close>.  The console and the calls made on the driver are kept as
  traces, oldest first.
\<close>

datatype handle = Handle nat

record connection_options =
  maxPoolSize :: nat
  serverSelectionTimeoutMS :: nat
  socketTimeoutMS :: nat
  bufferCommands :: bool
  bufferMaxEntries :: nat
  useNewUrlParser :: bool
  useUnifiedTopology :: bool
  maxIdleTimeMS :: nat
  heartbeatFrequencyMS :: nat

text \<open>The three closures passed to \<open>mongoose.connection.on\<close>, one constructor each.\<close>

datatype observer = OnError | OnDisconnected | OnReconnected

text \<open>One constructor for each \<open>console\<close> call of the module, in source order.\<close>

datatype console_msg =
    LogUsingCached
  | LogConnecting
  | LogConnected
  | ErrorConnectionError js_error
  | WarnDisconnected
  | LogReconnected
  | ErrorConnectionFailed js_error
  | LogConnectionClosed
  | ErrorClosing js_error
  | ErrorDatabaseOperation js_error

datatype driver_call =
    MongooseConnect "string option" connection_options
  | MongooseConnectionClose

record db_state =
  cachedConnection :: "handle option"
  readyState :: nat
  observers :: "(string \<times> observer) list"
  console :: "console_msg list"
  driverCalls :: "driver_call list"
  MONGODB_URI :: "string option"

definition initial_state :: db_state where
  "initial_state =
     \<lparr>cachedConnection = None, readyState = 0, observers = [], console = [],
      driverCalls = [], MONGODB_URI = None\<rparr>"

definition console_out :: "console_msg \<Rightarrow> db_state \<Rightarrow> db_state" where
  "console_out m s = s\<lparr>console := console s @ [m]\<rparr>"

subsection \<open>The driver\<close>

text \<open>
  The driver is outside the repository.  What one call of \<open>mongoose.connect\<close> or of
  \<open>mongoose.connection.close\<close> does is an input of the model: it resolves or it
  rejects.  A resolved connect leaves the readiness state at 1 (connected), a rejected
  one at 0; a resolved close leaves it at 0.
\<close>

datatype connect_outcome = ConnectResolves handle | ConnectRejects js_error

datatype close_outcome = CloseResolves | CloseRejects js_error

definition mongoose_connect ::
  "connect_outcome \<Rightarrow> string option \<Rightarrow> connection_options \<Rightarrow> db_state
     \<Rightarrow> handle completion \<times> db_state" where
  "mongoose_connect outcome uri opts s =
     (let s1 = s\<lparr>driverCalls := driverCalls s @ [MongooseConnect uri opts]\<rparr>
      in case outcome of
           ConnectResolves h \<Rightarrow> (Return h, s1\<lparr>readyState := 1\<rparr>)
         | ConnectRejects e \<Rightarrow> (Throw e, s1\<lparr>readyState := 0\<rparr>))"

definition mongoose_connection_close ::
  "close_outcome \<Rightarrow> db_state \<Rightarrow> unit completion \<times> db_state" where
  "mongoose_connection_close outcome s =
     (let s1 = s\<lparr>driverCalls := driverCalls s @ [MongooseConnectionClose]\<rparr>
      in case outcome of
           CloseResolves \<Rightarrow> (Return (), s1\<lparr>readyState := 0\<rparr>)
         | CloseRejects e \<Rightarrow> (Throw e, s1))"

definition mongoose_connection_on :: "string \<Rightarrow> observer \<Rightarrow> db_state \<Rightarrow> db_state" where
  "mongoose_connection_on name ob s = s\<lparr>observers := observers s @ [(name, ob)]\<rparr>"

subsection \<open>The observers\<close>

fun run_observer :: "observer \<Rightarrow> js_error option \<Rightarrow> db_state \<Rightarrow> db_state" where
  "run_observer OnError arg s =
     (console_out (ErrorConnectionError (case arg of Some e \<Rightarrow> e | None \<Rightarrow> Error []))
        s)\<lparr>cachedConnection := None\<rparr>"
| "run_observer OnDisconnected arg s =
     (console_out WarnDisconnected s)\<lparr>cachedConnection := None\<rparr>"
| "run_observer OnReconnected arg s = console_out LogReconnected s"

text \<open>\<open>emit\<close> calls the observers registered under the event's name, in registration order.\<close>

definition emit :: "string \<Rightarrow> js_error option \<Rightarrow> db_state \<Rightarrow> db_state" where
  "emit name arg s =
     fold (\<lambda>ob. run_observer ob arg) (map snd (filter (\<lambda>p. fst p = name) (observers s))) s"

subsection \<open>connectToDatabase, closeConnection, isConnected\<close>

definition connectionOptions :: connection_options where
  "connectionOptions =
     \<lparr>maxPoolSize = 10, serverSelectionTimeoutMS = 5000, socketTimeoutMS = 45000,
      bufferCommands = False, bufferMaxEntries = 0, useNewUrlParser = True,
      useUnifiedTopology = True, maxIdleTimeMS = 30000, heartbeatFrequencyMS = 10000\<rparr>"

text \<open>
  The body of the \<open>try\<close> of \<open>connectToDatabase\<close> with its \<open>catch\<close>.  The function
  returns the value of the variable \<open>cachedConnection\<close>, which is nullable.
\<close>

definition establish ::
  "connect_outcome \<Rightarrow> db_state \<Rightarrow> handle option completion \<times> db_state" where
  "establish outcome s =
     (let s1 = console_out LogConnecting s
      in case mongoose_connect outcome (MONGODB_URI s1) connectionOptions s1 of
           (Return h, s2) \<Rightarrow>
             (let s3 = s2\<lparr>cachedConnection := Some h\<rparr>;
                  s4 = console_out LogConnected s3;
                  s5 = mongoose_connection_on ''error'' OnError s4;
                  s6 = mongoose_connection_on ''disconnected'' OnDisconnected s5;
                  s7 = mongoose_connection_on ''reconnected'' OnReconnected s6
              in (Return (cachedConnection s7), s7))
         | (Throw e, s2) \<Rightarrow>
             (Throw e, (console_out (ErrorConnectionFailed e) s2)\<lparr>cachedConnection := None\<rparr>))"

definition connectToDatabase ::
  "connect_outcome \<Rightarrow> db_state \<Rightarrow> handle option completion \<times> db_state" where
  "connectToDatabase outcome s =
     (case cachedConnection s of
        Some c \<Rightarrow>
          if readyState s = 1
          then (let s1 = console_out LogUsingCached s in (Return (cachedConnection s1), s1))
          else establish outcome s
      | None \<Rightarrow> establish outcome s)"

definition closeConnection :: "close_outcome \<Rightarrow> db_state \<Rightarrow> unit completion \<times> db_state" where
  "closeConnection outcome s =
     (case cachedConnection s of
        Some c \<Rightarrow>
          (case mongoose_connection_close outcome s of
             (Return u, s1) \<Rightarrow>
               (Return (), console_out LogConnectionClosed (s1\<lparr>cachedConnection := None\<rparr>))
           | (Throw e, s1) \<Rightarrow> (Return (), console_out (ErrorClosing e) s1))
      | None \<Rightarrow> (Return (), s))"

definition isConnected :: "db_state \<Rightarrow> bool" where
  "isConnected s = (readyState s = 1)"

subsection \<open>Runs of the module\<close>

text \<open>
  The driver delivers its events between the calls of the module.  It reports the
  readiness state 0 when it emits \<open>disconnected\<close> and 1 when it emits
  \<open>reconnected\<close>.  A run starts from the freshly loaded module and takes any sequence
  of calls and driver events.
\<close>

definition driver_error :: "js_error \<Rightarrow> db_state \<Rightarrow> db_state" where
  "driver_error e s = emit ''error'' (Some e) s"

definition driver_disconnected :: "db_state \<Rightarrow> db_state" where
  "driver_disconnected s = emit ''disconnected'' None (s\<lparr>readyState := 0\<rparr>)"

definition driver_reconnected :: "db_state \<Rightarrow> db_state" where
  "driver_reconnected s = emit ''reconnected'' None (s\<lparr>readyState := 1\<rparr>)"

datatype action =
    Connect connect_outcome
  | Close close_outcome
  | DriverError js_error
  | DriverDisconnected
  | DriverReconnected

fun step :: "action \<Rightarrow> db_state \<Rightarrow> db_state" where
  "step (Connect outcome) s = snd (connectToDatabase outcome s)"
| "step (Close outcome) s = snd (closeConnection outcome s)"
| "step (DriverError e) s = driver_error e s"
| "step DriverDisconnected s = driver_disconnected s"
| "step DriverReconnected s = driver_reconnected s"

definition run :: "action list \<Rightarrow> db_state" where
  "run acts = fold step acts initial_state"

text \<open>
  The invariant of the runs: whenever a handle is cached, the \<open>disconnected\<close> observer
  that clears the cache is registered.
\<close>

definition observed :: "db_state \<Rightarrow> bool" where
  "observed s \<longleftrightarrow>
     (cachedConnection s \<noteq> None \<longrightarrow> (''disconnected'', OnDisconnected) \<in> set (observers s))"

section \<open>JavaScript values used by the middleware\<close>

subsection \<open>Strings\<close>

text \<open>
  A string is its list of code units; the model covers the code units below 256
  (Latin-1), which is what \<open>char\<close> holds.  \<open>\d\<close> is the ASCII digits, \<open>\s\<close> the white
  space and line terminators (below 256: TAB, LF, VT, FF, CR, SP, NBSP), and
  \<open>toLowerCase\<close> maps the upper-case letters to their lower-case partners.
\<close>

definition is_digit :: "char \<Rightarrow> bool" where
  "is_digit c \<longleftrightarrow> c \<in> set ''0123456789''"

definition is_space :: "char \<Rightarrow> bool" where
  "is_space c \<longleftrightarrow>
     c \<in> set [CHR 0x09, CHR 0x0A, CHR 0x0B, CHR 0x0C, CHR 0x0D, CHR 0x20, CHR 0xA0]"

definition lower_char :: "char \<Rightarrow> char" where
  "lower_char c =
     (let n = (of_char c :: nat)
      in if (65 \<le> n \<and> n \<le> 90) \<or> (192 \<le> n \<and> n \<le> 222 \<and> n \<noteq> 215)
         then char_of (n + 32) else c)"

definition toLowerCase :: "string \<Rightarrow> string" where
  "toLowerCase s = map lower_char s"

definition startsWith :: "string \<Rightarrow> string \<Rightarrow> bool" where
  "startsWith s w = prefix w s"

text \<open>\<open>ToString\<close> of a value that may be \<open>undefined\<close>.\<close>

definition to_string :: "string option \<Rightarrow> string" where
  "to_string v = (case v of None \<Rightarrow> ''undefined'' | Some s \<Rightarrow> s)"

subsection \<open>Numbers\<close>

text \<open>
  A Number is a binary64 value: \<open>NaN\<close>, an infinity, or a finite value, kept as the
  rational it denotes (the two zeros are one value here; nothing below tells them
  apart).  \<open>to_double\<close> rounds a rational to the nearest binary64 value, ties to even:
  53 significant bits, least exponent \<open>-1074\<close>, and infinity from \<open>2^1024\<close> on.
\<close>

datatype number = NaN | Finite rat | PosInfinity | NegInfinity

text \<open>The number of binary digits of a positive integer.\<close>

function bit_length :: "int \<Rightarrow> int" where
  "bit_length n = (if n \<le> 0 then 0 else 1 + bit_length (n div 2))"
  by pat_completeness auto
termination
  by (relation "measure nat") auto

declare bit_length.simps [simp del]

definition pow2 :: "int \<Rightarrow> rat" where
  "pow2 e = (if 0 \<le> e then 2 ^ nat e else 1 / 2 ^ nat (- e))"

text \<open>For \<open>q > 0\<close>, the integer \<open>k\<close> with \<open>2^k \<le> q < 2^(k+1)\<close>.\<close>

definition floor_log2 :: "rat \<Rightarrow> int" where
  "floor_log2 q =
     (if 1 \<le> q then bit_length \<lfloor>q\<rfloor> - 1 else - bit_length (\<lceil>1 / q\<rceil> - 1))"

definition round_half_even :: "rat \<Rightarrow> int" where
  "round_half_even x =
     (let f = \<lfloor>x\<rfloor>; d = x - of_int f
      in if d < 1 / 2 then f else if 1 / 2 < d then f + 1
         else if even f then f else f + 1)"

definition round_positive :: "rat \<Rightarrow> number" where
  "round_positive q =
     (let e = max (floor_log2 q - 52) (- 1074);
          v = of_int (round_half_even (q / pow2 e)) * pow2 e
      in if pow2 1024 \<le> v then PosInfinity else Finite v)"

definition negate :: "number \<Rightarrow> number" where
  "negate x =
     (case x of
        NaN \<Rightarrow> NaN
      | Finite q \<Rightarrow> Finite (- q)
      | PosInfinity \<Rightarrow> NegInfinity
      | NegInfinity \<Rightarrow> PosInfinity)"

definition to_double :: "rat \<Rightarrow> number" where
  "to_double q =
     (if q = 0 then Finite 0
      else if 0 < q then round_positive q
      else negate (round_positive (- q)))"

text \<open>The operators \<open>*\<close> and \<open>>\<close>, \<open>Math.floor\<close>, and the truth value of a Number.\<close>

definition sign_of :: "number \<Rightarrow> int" where
  "sign_of x =
     (case x of
        NaN \<Rightarrow> 0
      | Finite q \<Rightarrow> (if q < 0 then - 1 else if q = 0 then 0 else 1)
      | PosInfinity \<Rightarrow> 1
      | NegInfinity \<Rightarrow> - 1)"

definition multiply :: "number \<Rightarrow> number \<Rightarrow> number" where
  "multiply x y =
     (case (x, y) of
        (NaN, _) \<Rightarrow> NaN
      | (_, NaN) \<Rightarrow> NaN
      | (Finite a, Finite b) \<Rightarrow> to_double (a * b)
      | _ \<Rightarrow>
          (if sign_of x * sign_of y = 0 then NaN
           else if 0 < sign_of x * sign_of y then PosInfinity else NegInfinity))"

definition greater :: "number \<Rightarrow> number \<Rightarrow> bool" where
  "greater x y =
     (case (x, y) of
        (NaN, _) \<Rightarrow> False
      | (_, NaN) \<Rightarrow> False
      | (Finite a, Finite b) \<Rightarrow> b < a
      | (PosInfinity, PosInfinity) \<Rightarrow> False
      | (PosInfinity, _) \<Rightarrow> True
      | (_, NegInfinity) \<Rightarrow> (x \<noteq> NegInfinity)
      | _ \<Rightarrow> False)"

definition Math_floor :: "number \<Rightarrow> number" where
  "Math_floor x = (case x of Finite q \<Rightarrow> Finite (of_int \<lfloor>q\<rfloor>) | _ \<Rightarrow> x)"

definition truthy :: "number \<Rightarrow> bool" where
  "truthy x = (case x of NaN \<Rightarrow> False | Finite q \<Rightarrow> q \<noteq> 0 | _ \<Rightarrow> True)"

text \<open>The Numbers that are zero or above: the finite ones from 0 on, and \<open>Infinity\<close>.\<close>

definition nonnegative :: "number \<Rightarrow> bool" where
  "nonnegative x = (case x of Finite q \<Rightarrow> 0 \<le> q | PosInfinity \<Rightarrow> True | _ \<Rightarrow> False)"

subsection \<open>parseInt and parseFloat\<close>

definition digit_value :: "char \<Rightarrow> int" where
  "digit_value c =
     (let n = (of_char c :: int)
      in if 48 \<le> n \<and> n \<le> 57 then n - 48
         else if 97 \<le> n \<and> n \<le> 102 then n - 87
         else if 65 \<le> n \<and> n \<le> 70 then n - 55
         else 0)"

definition is_hex_digit :: "char \<Rightarrow> bool" where
  "is_hex_digit c \<longleftrightarrow> c \<in> set ''0123456789abcdefABCDEF''"

text \<open>The value of a digit string in a radix, most significant digit first.\<close>

definition digits_value :: "int \<Rightarrow> string \<Rightarrow> int" where
  "digits_value radix ds = foldl (\<lambda>acc c. acc * radix + digit_value c) 0 ds"

definition strip_sign :: "string \<Rightarrow> bool \<times> string" where
  "strip_sign s =
     (case s of
        c # cs \<Rightarrow>
          if c = CHR ''-'' then (True, cs) else if c = CHR ''+'' then (False, cs)
          else (False, s)
      | [] \<Rightarrow> (False, s))"

text \<open>
  \<open>parseInt(string)\<close> without a radix: leading white space is dropped, then a sign, then
  a \<open>0x\<close> or \<open>0X\<close> prefix selects radix 16; the longest run of digits is read, and no
  digit at all gives \<open>NaN\<close>.
\<close>

definition parseInt :: "string \<Rightarrow> number" where
  "parseInt input =
     (let (neg, s) = strip_sign (dropWhile is_space input);
          hex = (prefix ''0x'' s \<or> prefix ''0X'' s);
          z = (if hex then takeWhile is_hex_digit (drop 2 s) else takeWhile is_digit s);
          v = to_double (of_int (digits_value (if hex then 16 else 10) z))
      in if z = [] then NaN else if neg then negate v else v)"

text \<open>
  \<open>parseFloat(string)\<close>: leading white space is dropped, then the longest prefix that
  is a decimal literal is read: a sign, then \<open>Infinity\<close> or digits with an optional
  fraction and an optional exponent.  No such prefix gives \<open>NaN\<close>.
\<close>

definition exponent_part :: "string \<Rightarrow> int" where
  "exponent_part s =
     (case s of
        c # cs \<Rightarrow>
          if c = CHR ''e'' \<or> c = CHR ''E'' then
            (let (neg, r) = strip_sign cs; ds = takeWhile is_digit r
             in if ds = [] then 0
                else if neg then - digits_value 10 ds else digits_value 10 ds)
          else 0
      | [] \<Rightarrow> 0)"

definition pow10 :: "int \<Rightarrow> rat" where
  "pow10 e = (if 0 \<le> e then 10 ^ nat e else 1 / 10 ^ nat (- e))"

definition parseFloat :: "string \<Rightarrow> number" where
  "parseFloat input =
     (let (neg, s) = strip_sign (dropWhile is_space input)
      in if prefix ''Infinity'' s then (if neg then NegInfinity else PosInfinity)
         else
           (let ip = takeWhile is_digit s;
                r1 = dropWhile is_digit s;
                dot = (case r1 of c # cs \<Rightarrow> c = CHR ''.'' | [] \<Rightarrow> False);
                fp = (if dot then takeWhile is_digit (tl r1) else []);
                r2 = (if dot then dropWhile is_digit (tl r1) else r1);
                m = of_int (digits_value 10 (ip @ fp)) * pow10 (- int (length fp));
                v = to_double (m * pow10 (exponent_part r2))
            in if ip = [] \<and> fp = [] then NaN else if neg then negate v else v))"


subsection \<open>Regular expressions\<close>

text \<open>
  The constructs the two regular expressions of the repository use: a literal character
  or string, a character class, sequence, alternative, the greedy quantifiers \<open>?\<close>,
  \<open>*\<close> and \<open>+\<close> (the last two on a character class, which is all the source needs), a
  capturing group, and the assertions \<open>^\<close> and \<open>$\<close> (without the \<open>m\<close> flag: start and end
  of the input).

  The matcher backtracks as the language prescribes.  A state is the number of
  characters consumed, the characters left, and the captures so far; \<open>rmatch r st\<close> lists
  the states in which a match of \<open>r\<close> from \<open>st\<close> can end, in the order in which backtracking
  tries them.
\<close>

datatype regex =
    Chr char
  | Str string
  | Cls "char \<Rightarrow> bool"
  | Bol
  | Eol
  | Seq regex regex
  | Alt regex regex
  | Opt regex
  | Rep0 "char \<Rightarrow> bool"
  | Rep1 "char \<Rightarrow> bool"
  | Group nat regex

text \<open>An alternative of literal strings, \<open>(w1|w2|...)\<close> without the group.\<close>

fun alts :: "string list \<Rightarrow> regex" where
  "alts [] = Str []"
| "alts [w] = Str w"
| "alts (w # v # ws) = Alt (Str w) (alts (v # ws))"

type_synonym captures = "nat \<rightharpoonup> string"

type_synonym mstate = "nat \<times> string \<times> captures"

fun reps :: "(char \<Rightarrow> bool) \<Rightarrow> nat \<Rightarrow> string \<Rightarrow> captures \<Rightarrow> mstate list" where
  "reps f p [] k = [(p, [], k)]"
| "reps f p (c # cs) k = (if f c then reps f (Suc p) cs k else []) @ [(p, c # cs, k)]"

fun rmatch :: "regex \<Rightarrow> mstate \<Rightarrow> mstate list" where
  "rmatch (Chr c) (p, s, k) =
     (case s of [] \<Rightarrow> [] | x # xs \<Rightarrow> if x = c then [(Suc p, xs, k)] else [])"
| "rmatch (Str w) (p, s, k) =
     (if prefix w s then [(p + length w, drop (length w) s, k)] else [])"
| "rmatch (Cls f) (p, s, k) =
     (case s of [] \<Rightarrow> [] | x # xs \<Rightarrow> if f x then [(Suc p, xs, k)] else [])"
| "rmatch Bol (p, s, k) = (if p = 0 then [(p, s, k)] else [])"
| "rmatch Eol (p, s, k) = (if s = [] then [(p, s, k)] else [])"
| "rmatch (Seq a b) st = concat (map (rmatch b) (rmatch a st))"
| "rmatch (Alt a b) st = rmatch a st @ rmatch b st"
| "rmatch (Opt a) st = rmatch a st @ [st]"
| "rmatch (Rep0 f) (p, s, k) = reps f p s k"
| "rmatch (Rep1 f) (p, s, k) =
     (case s of [] \<Rightarrow> [] | x # xs \<Rightarrow> if f x then reps f (Suc p) xs k else [])"
| "rmatch (Group i a) (p, s, k) =
     map (\<lambda>(p', s', k'). (p', s', k'(i \<mapsto> take (p' - p) s))) (rmatch a (p, s, k))"

text \<open>
  \<open>String.prototype.match\<close> with a regular expression without the \<open>g\<close> flag: the first
  start position, from the left, at which the expression matches, and there the first
  match that backtracking finds.  The result maps 0 to the matched text and each group
  that took part to its text; \<open>None\<close> is \<open>null\<close>.
\<close>

fun exec_from :: "regex \<Rightarrow> nat \<Rightarrow> string \<Rightarrow> captures option" where
  "exec_from r p s =
     (case rmatch r (p, s, Map.empty) of
        (p', s', k') # rest \<Rightarrow> Some (k'(0 \<mapsto> take (p' - p) s))
      | [] \<Rightarrow> (case s of [] \<Rightarrow> None | c # cs \<Rightarrow> exec_from r (Suc p) cs))"

declare exec_from.simps [simp del]

definition string_match :: "string \<Rightarrow> regex \<Rightarrow> captures option" where
  "string_match s r = exec_from r 0 s"


section \<open>The performance utilities\<close>

subsection \<open>Requests and responses\<close>

text \<open>
  Of a request the middleware reads \<open>req.path\<close> and \<open>req.headers\<close>.  On a response it
  calls \<open>res.set\<close>, \<open>res.status\<close> and \<open>res.json\<close>, and it calls \<open>next\<close>: the model keeps the
  status code, the headers set, the bodies sent with \<open>res.json\<close> (oldest first) and the
  number of calls of \<open>next\<close>.
\<close>

datatype json =
    JBool bool
  | JString string
  | JObject "(string \<times> json) list"

record request =
  path :: string
  req_headers :: "string \<rightharpoonup> string"

record response =
  statusCode :: nat
  res_headers :: "string \<rightharpoonup> string"
  jsonSent :: "json list"
  nextCalls :: nat

definition res_set :: "string \<Rightarrow> string \<Rightarrow> response \<Rightarrow> response" where
  "res_set field v res = res\<lparr>res_headers := (res_headers res)(field \<mapsto> v)\<rparr>"

definition res_status :: "nat \<Rightarrow> response \<Rightarrow> response" where
  "res_status code res = res\<lparr>statusCode := code\<rparr>"

definition res_json :: "json \<Rightarrow> response \<Rightarrow> response" where
  "res_json body res = res\<lparr>jsonSent := jsonSent res @ [body]\<rparr>"

definition call_next :: "response \<Rightarrow> response" where
  "call_next res = res\<lparr>nextCalls := Suc (nextCalls res)\<rparr>"

definition fresh_response :: response where
  "fresh_response = \<lparr>statusCode = 200, res_headers = Map.empty, jsonSent = [], nextCalls = 0\<rparr>"

subsection \<open>setCacheHeaders\<close>

text \<open>The expression \<open>/\.(js|css|png|jpg|jpeg|gif|ico|svg)$/\<close>.\<close>

definition static_asset_regex :: regex where
  "static_asset_regex =
     Seq (Chr CHR ''.'')
       (Seq (Group 1 (alts [''js'', ''css'', ''png'', ''jpg'', ''jpeg'', ''gif'', ''ico'', ''svg'']))
          Eol)"

definition setCacheHeaders :: "request \<Rightarrow> response \<Rightarrow> response" where
  "setCacheHeaders req res =
     (if string_match (path req) static_asset_regex \<noteq> None
      then call_next (res_set ''Cache-Control'' ''public, max-age=3600'' res)
      else if startsWith (path req) ''/api/''
      then call_next (res_set ''Cache-Control'' ''public, max-age=300'' res)
      else call_next res)"

text \<open>
  The static-asset extensions as the specification lists them: a path is a static asset
  when it ends with one of them.
\<close>

definition static_extensions :: "string list" where
  "static_extensions =
     [''.js'', ''.css'', ''.png'', ''.jpg'', ''.jpeg'', ''.gif'', ''.ico'', ''.svg'']"

definition is_static_asset :: "string \<Rightarrow> bool" where
  "is_static_asset p \<longleftrightarrow> (\<exists>e \<in> set static_extensions. suffix e p)"

subsection \<open>parseSize\<close>

definition units :: "string \<rightharpoonup> number" where
  "units =
     [''b'' \<mapsto> Finite 1, ''kb'' \<mapsto> Finite 1024, ''mb'' \<mapsto> Finite (1024 * 1024),
      ''gb'' \<mapsto> Finite (1024 * 1024 * 1024)]"

text \<open>
  The expression \<open>/^(\d+(?:\.\d+)?)\s*(b|kb|mb|gb)?$/\<close>, with the words of its second
  group named.
\<close>

definition unit_words :: "string list" where
  "unit_words = [''b'', ''kb'', ''mb'', ''gb'']"

definition size_regex :: regex where
  "size_regex =
     Seq Bol
       (Seq (Group 1 (Seq (Rep1 is_digit) (Opt (Seq (Chr CHR ''.'') (Rep1 is_digit)))))
          (Seq (Rep0 is_space)
             (Seq (Opt (Group 2 (alts unit_words)))
                Eol)))"

text \<open>
  \<open>match[2] || 'b'\<close> takes \<open>'b'\<close> when the group did not take part and when it is
  empty.  A unit outside the table would make the product \<open>NaN\<close>.
\<close>

definition parseSize :: "string \<Rightarrow> number" where
  "parseSize sz =
     (case string_match (toLowerCase sz) size_regex of
        None \<Rightarrow> Finite 0
      | Some match \<Rightarrow>
          (let v = parseFloat (to_string (match 1));
               unit = (case match 2 of None \<Rightarrow> ''b'' | Some u \<Rightarrow> if u = [] then ''b'' else u)
           in Math_floor (case units unit of None \<Rightarrow> NaN | Some u \<Rightarrow> multiply v u)))"

text \<open>
  The pattern of a size string in the words of the specification: a number, that is
  digits with an optional fraction, then optional white space, then an optional unit.
\<close>

definition digits :: "string \<Rightarrow> bool" where
  "digits ds \<longleftrightarrow> ds \<noteq> [] \<and> (\<forall>c \<in> set ds. is_digit c)"

definition decimal_number :: "string \<Rightarrow> bool" where
  "decimal_number n \<longleftrightarrow>
     digits n \<or> (\<exists>ds fd. digits ds \<and> digits fd \<and> n = ds @ CHR ''.'' # fd)"

definition size_pattern :: "string \<Rightarrow> bool" where
  "size_pattern s \<longleftrightarrow>
     (\<exists>n ws u. s = n @ ws @ u \<and> decimal_number n \<and> (\<forall>c \<in> set ws. is_space c) \<and>
        (u = [] \<or> u \<in> set unit_words))"

text \<open>
  The unit table in the words of the specification: \<open>{b:1, kb:1024, mb:1024^2, gb:1024^3}\<close>,
  with \<open>b\<close> for a size without a unit.
\<close>

definition unit_factor :: "string \<Rightarrow> rat" where
  "unit_factor u =
     (if u = ''kb'' then 1024 else if u = ''mb'' then 1024 ^ 2 else if u = ''gb'' then 1024 ^ 3
      else 1)"

text \<open>The characters a number is written with.\<close>

definition number_char :: "char \<Rightarrow> bool" where
  "number_char c \<longleftrightarrow> is_digit c \<or> c = CHR ''.''"

subsection \<open>requestSizeLimiter\<close>

text \<open>\<open>maxSize\<close> is \<open>None\<close> when the argument is left out; the default is \<open>'10mb'\<close>.\<close>

definition requestSizeLimiter :: "string option \<Rightarrow> request \<Rightarrow> response \<Rightarrow> response" where
  "requestSizeLimiter maxSize_arg req res =
     (let maxSize = (case maxSize_arg of None \<Rightarrow> ''10mb'' | Some m \<Rightarrow> m);
          contentLength = parseInt (to_string (req_headers req ''content-length''));
          maxBytes = parseSize maxSize
      in if truthy contentLength \<and> greater contentLength maxBytes
         then res_json
                (JObject [(''success'', JBool False),
                          (''error'', JString ''Request entity too large''),
                          (''maxSize'', JString maxSize)])
                (res_status 413 res)
         else call_next res)"

subsection \<open>Promises\<close>

text \<open>
  A promise in logical time: it stays pending for ever, or it settles, fulfilled with a
  value or rejected with an error, at an instant counted in milliseconds from the moment
  the promise was handed over.

  \<open>Promise.all\<close> rejects with the earliest rejection (the first in the list among
  rejections at the same instant), whatever the other promises do; without a rejection
  it stays pending if one of the promises does, and otherwise fulfils, when the last
  promise has, with the values in the order of the list.

  \<open>Promise.race\<close> settles as the promise that settles first does, the first in the list
  among promises that settle at the same instant.
\<close>

datatype 'a promise = Pending | Fulfills nat 'a | Rejects nat js_error

fun first_rejection :: "'a promise list \<Rightarrow> (nat \<times> js_error) option" where
  "first_rejection [] = None"
| "first_rejection (Rejects t e # ps) =
     (case first_rejection ps of
        Some (t', e') \<Rightarrow> if t' < t then Some (t', e') else Some (t, e)
      | None \<Rightarrow> Some (t, e))"
| "first_rejection (p # ps) = first_rejection ps"

fun all_values :: "'a promise list \<Rightarrow> (nat \<times> 'a list) option" where
  "all_values [] = Some (0, [])"
| "all_values (Fulfills t v # ps) =
     (case all_values ps of Some (t', vs) \<Rightarrow> Some (max t t', v # vs) | None \<Rightarrow> None)"
| "all_values (p # ps) = None"

definition Promise_all :: "'a promise list \<Rightarrow> 'a list promise" where
  "Promise_all ps =
     (case first_rejection ps of
        Some (t, e) \<Rightarrow> Rejects t e
      | None \<Rightarrow> (case all_values ps of Some (t, vs) \<Rightarrow> Fulfills t vs | None \<Rightarrow> Pending))"

fun settle_time :: "'a promise \<Rightarrow> nat option" where
  "settle_time Pending = None"
| "settle_time (Fulfills t v) = Some t"
| "settle_time (Rejects t e) = Some t"

fun settles_before :: "'a promise \<Rightarrow> 'a promise \<Rightarrow> bool" where
  "settles_before Pending q = False"
| "settles_before p Pending = True"
| "settles_before (Fulfills t v) (Fulfills t' v') = (t < t')"
| "settles_before (Fulfills t v) (Rejects t' e') = (t < t')"
| "settles_before (Rejects t e) (Fulfills t' v') = (t < t')"
| "settles_before (Rejects t e) (Rejects t' e') = (t < t')"

fun Promise_race :: "'a promise list \<Rightarrow> 'a promise" where
  "Promise_race [] = Pending"
| "Promise_race (p # ps) =
     (let q = Promise_race ps in if settles_before q p then q else p)"

subsection \<open>batchProcess\<close>

text \<open>
  \<open>Array.prototype.slice(start, end)\<close> on integer arguments: a negative index counts
  from the end, and both are clamped to the array.
\<close>

definition slice :: "'a list \<Rightarrow> int \<Rightarrow> int \<Rightarrow> 'a list" where
  "slice xs start stop =
     (let len = int (length xs);
          k = (if start < 0 then max (len + start) 0 else min start len);
          final = (if stop < 0 then max (len + stop) 0 else min stop len)
      in take (nat (final - k)) (drop (nat k) xs))"

text \<open>
  The \<open>for\<close> loop of \<open>batchProcess\<close>, with the loop variable \<open>i\<close>, the array \<open>results\<close>
  and the time elapsed at each \<open>await\<close>.  The batch size is an integer; nothing in the
  source bounds it, and the loop need not end: \<open>None\<close> is a loop that runs for ever.
  The promise the \<open>async\<close> function returns is rejected when an \<open>await\<close> throws and stays
  pending when an awaited promise does.  The processor's promise settles after a delay
  counted from the call.  Limits of an engine on the length of an argument list (the
  spread in \<open>results.push\<close>) are not part of the model.
\<close>

partial_function (option) batch_loop ::
  "('a \<Rightarrow> 'b promise) \<Rightarrow> 'a list \<Rightarrow> int \<Rightarrow> int \<Rightarrow> 'b list \<Rightarrow> nat \<Rightarrow> 'b list promise option"
where
  "batch_loop processor items batchSize i results now =
     (if i < int (length items) then
        (case Promise_all (map processor (slice items i (i + batchSize))) of
           Fulfills t batchResults \<Rightarrow>
             batch_loop processor items batchSize (i + batchSize) (results @ batchResults)
               (now + t)
         | Rejects t e \<Rightarrow> Some (Rejects (now + t) e)
         | Pending \<Rightarrow> Some Pending)
      else Some (Fulfills now results))"

text \<open>\<open>batchSize\<close> is \<open>None\<close> when the argument is \<open>undefined\<close>; the default is 100.\<close>

definition batchProcess ::
  "'a list \<Rightarrow> int option \<Rightarrow> ('a \<Rightarrow> 'b promise) \<Rightarrow> 'b list promise option" where
  "batchProcess items batchSize_arg processor =
     batch_loop processor items (case batchSize_arg of None \<Rightarrow> 100 | Some b \<Rightarrow> b) 0 [] 0"

subsection \<open>withTimeout\<close>

text \<open>
  The decimal form of a natural number, which is what a template literal prints for an
  integer Number below \<open>10^21\<close>.
\<close>

fun decimal :: "nat \<Rightarrow> string" where
  "decimal n =
     (if n < 10 then [''0123456789'' ! n]
      else decimal (n div 10) @ [''0123456789'' ! (n mod 10)])"

declare decimal.simps [simp del]

text \<open>
  \<open>withTimeout\<close> races the promise against a promise that the timer's callback rejects.
  \<open>fires\<close> is the instant at which the runtime runs that callback; a punctual timer
  fires at \<open>timeoutMs\<close>.  \<open>timeoutMs\<close> is \<open>None\<close> when the argument is left out; the default
  is 10000.
\<close>

definition withTimeout :: "nat \<Rightarrow> 'a promise \<Rightarrow> nat option \<Rightarrow> 'a promise" where
  "withTimeout fires promise timeoutMs_arg =
     (let timeoutMs = (case timeoutMs_arg of None \<Rightarrow> 10000 | Some t \<Rightarrow> t)
      in Promise_race
           [promise,
            Rejects fires (Error (''Operation timed out after '' @ decimal timeoutMs @ ''ms''))])"

section \<open>The middleware wrappers\<close>

subsection \<open>withDatabase\<close>

text \<open>
  A handler works on the process state and on the response, and its promise is awaited:
  it returns a value or throws, and what it did before throwing stays done.  The wrapper
  returns the handler's value, or what \<open>res.status(500).json(...)\<close> returns.
\<close>

type_synonym world = "db_state \<times> response"

type_synonym 'r handler = "request \<Rightarrow> world \<Rightarrow> 'r completion \<times> world"

datatype 'r wrapper_value = HandlerValue 'r | ResponseObject

definition database_error_body :: "js_error \<Rightarrow> json" where
  "database_error_body e =
     JObject [(''success'', JBool False), (''error'', JString ''Database operation failed''),
              (''message'', JString (message e))]"

definition database_catch :: "js_error \<Rightarrow> world \<Rightarrow> 'r wrapper_value completion \<times> world" where
  "database_catch e w =
     (case w of (d, res) \<Rightarrow>
        (Return ResponseObject,
         (console_out (ErrorDatabaseOperation e) d,
          res_json (database_error_body e) (res_status 500 res))))"

definition withDatabase ::
  "'r handler \<Rightarrow> connect_outcome \<Rightarrow> request \<Rightarrow> world \<Rightarrow> 'r wrapper_value completion \<times> world"
where
  "withDatabase fn outcome req w =
     (case w of (d, res) \<Rightarrow>
        (case connectToDatabase outcome d of
           (Throw e, d1) \<Rightarrow> database_catch e (d1, res)
         | (Return c, d1) \<Rightarrow>
             (case fn req (d1, res) of
                (Throw e, w2) \<Rightarrow> database_catch e w2
              | (Return v, w2) \<Rightarrow> (Return (HandlerValue v), w2))))"

text \<open>
  A handler that throws \<open>Error("boom")\<close> and whose next statement would answer
  \<open>{success: true}\<close>.
\<close>

definition throw :: "js_error \<Rightarrow> world \<Rightarrow> 'a completion \<times> world" where
  "throw e w = (Throw e, w)"

definition and_then ::
  "(world \<Rightarrow> 'a completion \<times> world) \<Rightarrow> ('a \<Rightarrow> world \<Rightarrow> 'b completion \<times> world)
     \<Rightarrow> world \<Rightarrow> 'b completion \<times> world" where
  "and_then m f w = (case m w of (Throw e, w1) \<Rightarrow> (Throw e, w1) | (Return v, w1) \<Rightarrow> f v w1)"

definition send_json :: "json \<Rightarrow> world \<Rightarrow> unit completion \<times> world" where
  "send_json body w = (case w of (d, res) \<Rightarrow> (Return (), (d, res_json body res)))"

definition boom_handler :: "unit handler" where
  "boom_handler req =
     and_then (throw (Error ''boom''))
       (\<lambda>u :: unit. send_json (JObject [(''success'', JBool True)]))"


section \<open>Properties of the connection cache\<close>

subsection \<open>What the observers change\<close>

lemma run_observer_fields:
  "readyState (run_observer ob arg s) = readyState s"
  "observers (run_observer ob arg s) = observers s"
  "driverCalls (run_observer ob arg s) = driverCalls s"
  "cachedConnection (run_observer ob arg s) =
     (if ob = OnReconnected then cachedConnection s else None)"
  by (cases ob; simp add: console_out_def)+

lemma fold_observers_cache:
  "cachedConnection (fold (\<lambda>ob. run_observer ob arg) obs s) =
     (if \<exists>ob \<in> set obs. ob \<noteq> OnReconnected then None else cachedConnection s)"
  by (induction obs arbitrary: s) (auto simp: run_observer_fields console_out_def)

lemma fold_observers_fields:
  "readyState (fold (\<lambda>ob. run_observer ob arg) obs s) = readyState s"
  "observers (fold (\<lambda>ob. run_observer ob arg) obs s) = observers s"
  "driverCalls (fold (\<lambda>ob. run_observer ob arg) obs s) = driverCalls s"
  by (induction obs arbitrary: s) (simp_all add: run_observer_fields)

subsection \<open>The invariant holds on every run\<close>

lemma observed_connect: "observed s \<Longrightarrow> observed (snd (connectToDatabase outcome s))"
  by (cases outcome)
     (auto simp: observed_def connectToDatabase_def establish_def mongoose_connect_def
        mongoose_connection_on_def console_out_def Let_def split: option.splits)

lemma observed_close: "observed s \<Longrightarrow> observed (snd (closeConnection outcome s))"
  by (cases outcome)
     (auto simp: observed_def closeConnection_def mongoose_connection_close_def
        console_out_def Let_def split: option.splits)

lemma observed_emit: "observed s \<Longrightarrow> observed (emit name arg (s\<lparr>readyState := r\<rparr>))"
  by (auto simp: observed_def emit_def fold_observers_cache fold_observers_fields
      split: if_splits)

lemma observed_step: "observed s \<Longrightarrow> observed (step a s)"
proof (cases a)
  case (DriverError e)
  assume "observed s"
  from observed_emit [OF this, of "''error''" "Some e" "readyState s"] DriverError
  show ?thesis by (simp add: driver_error_def)
qed (simp_all add: observed_connect observed_close observed_emit
      driver_disconnected_def driver_reconnected_def)

lemma observed_fold: "observed s \<Longrightarrow> observed (fold step acts s)"
  by (induction acts arbitrary: s) (simp_all add: observed_step)

lemma observed_run: "observed (run acts)"
  unfolding run_def by (rule observed_fold) (simp add: observed_def initial_state_def)

subsection \<open>Reuse and establishment\<close>

lemma disconnected_event_clears:
  "observed s \<Longrightarrow> cachedConnection (emit ''disconnected'' arg s) = None"
  by (cases "cachedConnection s")
     (force simp: observed_def emit_def fold_observers_cache fold_observers_fields)+

lemma disconnected_clears:
  "observed s \<Longrightarrow> cachedConnection (driver_disconnected s) = None"
  by (cases "cachedConnection s")
     (force simp: observed_def driver_disconnected_def emit_def fold_observers_cache
        fold_observers_fields)+

lemma disconnected_readyState: "readyState (driver_disconnected s) = 0"
  by (simp add: driver_disconnected_def emit_def fold_observers_fields)

lemma connect_reuses_iff:
  "fst (connectToDatabase outcome s) = Return (cachedConnection s) \<and>
   driverCalls (snd (connectToDatabase outcome s)) = driverCalls s
   \<longleftrightarrow> cachedConnection s \<noteq> None \<and> readyState s = 1"
  by (cases outcome)
     (auto simp: connectToDatabase_def establish_def mongoose_connect_def
        mongoose_connection_on_def console_out_def Let_def split: option.splits)

lemma connect_establishes:
  assumes "\<not> (cachedConnection s \<noteq> None \<and> readyState s = 1)"
  shows "fst (connectToDatabase (ConnectResolves h) s) = Return (Some h)"
    and "cachedConnection (snd (connectToDatabase (ConnectResolves h) s)) = Some h"
    and "observers (snd (connectToDatabase (ConnectResolves h) s)) =
           observers s @ [(''error'', OnError), (''disconnected'', OnDisconnected),
                          (''reconnected'', OnReconnected)]"
    and "driverCalls (snd (connectToDatabase (ConnectResolves h) s)) =
           driverCalls s @ [MongooseConnect (MONGODB_URI s) connectionOptions]"
  using assms
  by (auto simp: connectToDatabase_def establish_def mongoose_connect_def
        mongoose_connection_on_def console_out_def Let_def split: option.splits)

text \<open>
  Claim C7.  \<open>connectToDatabase\<close> hands back the cached connection without calling the
  driver exactly when a handle is cached and the readiness state is 1.  Otherwise it
  calls \<open>mongoose.connect\<close>; when that resolves, the handle is stored in the cache, the
  three observers are registered and the handle is returned.  On every run of the module,
  after the driver emits \<open>disconnected\<close> the cache is null, \<open>isConnected\<close> is false and the
  next \<open>connectToDatabase\<close> calls the driver again; the cache is null and the driver is
  called again also when the event is delivered without a change of the readiness state.
\<close>

theorem connect_cache_contract:
  "((fst (connectToDatabase outcome s) = Return (cachedConnection s) \<and>
     driverCalls (snd (connectToDatabase outcome s)) = driverCalls s)
    \<longleftrightarrow> (cachedConnection s \<noteq> None \<and> readyState s = 1)) \<and>
   (\<not> (cachedConnection s \<noteq> None \<and> readyState s = 1) \<longrightarrow>
      fst (connectToDatabase (ConnectResolves h) s) = Return (Some h) \<and>
      cachedConnection (snd (connectToDatabase (ConnectResolves h) s)) = Some h \<and>
      observers (snd (connectToDatabase (ConnectResolves h) s)) =
        observers s @ [(''error'', OnError), (''disconnected'', OnDisconnected),
                       (''reconnected'', OnReconnected)] \<and>
      driverCalls (snd (connectToDatabase (ConnectResolves h) s)) =
        driverCalls s @ [MongooseConnect (MONGODB_URI s) connectionOptions]) \<and>
   (let d = driver_disconnected (run acts) in
      cachedConnection d = None \<and> \<not> isConnected d \<and>
      fst (connectToDatabase (ConnectResolves h) d) = Return (Some h) \<and>
      driverCalls (snd (connectToDatabase (ConnectResolves h) d)) =
        driverCalls d @ [MongooseConnect (MONGODB_URI d) connectionOptions]) \<and>
   (let d = emit ''disconnected'' None (run acts) in
      cachedConnection d = None \<and>
      fst (connectToDatabase (ConnectResolves h) d) = Return (Some h) \<and>
      driverCalls (snd (connectToDatabase (ConnectResolves h) d)) =
        driverCalls d @ [MongooseConnect (MONGODB_URI d) connectionOptions])"
proof -
  let ?d = "driver_disconnected (run acts)"
  let ?e = "emit ''disconnected'' None (run acts)"
  have c: "cachedConnection ?d = None"
    by (rule disconnected_clears) (rule observed_run)
  then have n: "\<not> (cachedConnection ?d \<noteq> None \<and> readyState ?d = 1)" by simp
  have c': "cachedConnection ?e = None"
    by (rule disconnected_event_clears) (rule observed_run)
  then have n': "\<not> (cachedConnection ?e \<noteq> None \<and> readyState ?e = 1)" by simp
  have "\<not> isConnected ?d" by (simp add: isConnected_def disconnected_readyState)
  with c c' connect_establishes [OF n, of h] connect_establishes [OF n', of h]
    connect_reuses_iff [of outcome s] connect_establishes [of s h]
  show ?thesis unfolding Let_def by blast
qed

text \<open>
  The contract on a concrete run: a first connect caches handle 1, a second call reuses
  it, and after \<open>disconnected\<close> the next call obtains handle 2 through a second driver call.
\<close>

theorem connect_cache_contract_witness:
  "(let s = run [Connect (ConnectResolves (Handle 1))];
        d = driver_disconnected s;
        r = connectToDatabase (ConnectResolves (Handle 2)) s;
        n = connectToDatabase (ConnectResolves (Handle 2)) d
    in cachedConnection s = Some (Handle 1) \<and> readyState s = 1 \<and>
       fst r = Return (Some (Handle 1)) \<and> driverCalls (snd r) = driverCalls s \<and>
       cachedConnection d = None \<and> \<not> isConnected d \<and>
       fst n = Return (Some (Handle 2)) \<and> length (driverCalls (snd n)) = 2)"
  using connect_cache_contract [of "ConnectResolves (Handle 2)" "run [Connect (ConnectResolves (Handle 1))]" "Handle 2" "[Connect (ConnectResolves (Handle 1))]"]
  by (simp add: Let_def run_def initial_state_def connectToDatabase_def establish_def mongoose_connect_def
        mongoose_connection_on_def console_out_def driver_disconnected_def emit_def isConnected_def)

subsection \<open>Failed establishment\<close>

text \<open>
  Claim C8.  When \<open>connectToDatabase\<close> has to establish a connection and
  \<open>mongoose.connect\<close> throws \<open>e\<close>, the call throws the same \<open>e\<close> and the cache is null
  when it does, whatever it held before.
\<close>

theorem connect_failure_resets_cache:
  assumes "\<not> (cachedConnection s \<noteq> None \<and> readyState s = 1)"
  shows "fst (connectToDatabase (ConnectRejects e) s) = Throw e \<and>
         cachedConnection (snd (connectToDatabase (ConnectRejects e) s)) = None \<and>
         driverCalls (snd (connectToDatabase (ConnectRejects e) s)) =
           driverCalls s @ [MongooseConnect (MONGODB_URI s) connectionOptions]"
  using assms
  by (auto simp: connectToDatabase_def establish_def mongoose_connect_def console_out_def
        Let_def split: option.splits)

text \<open>
  A state with a cached handle whose connection is no longer ready (readiness state 2):
  the failed attempt throws the driver's error and leaves the cache null.
\<close>

theorem connect_failure_resets_cache_witness:
  "(let s = driver_reconnected (snd (closeConnection (CloseRejects (Error ''busy''))
              (run [Connect (ConnectResolves (Handle 1))])))\<lparr>readyState := 2\<rparr>;
        r = connectToDatabase (ConnectRejects (Error ''ECONNREFUSED'')) s
    in cachedConnection s = Some (Handle 1) \<and> readyState s = 2 \<and>
       fst r = Throw (Error ''ECONNREFUSED'') \<and> cachedConnection (snd r) = None)"
  using connect_failure_resets_cache
    [of "driver_reconnected (snd (closeConnection (CloseRejects (Error ''busy''))
              (run [Connect (ConnectResolves (Handle 1))])))\<lparr>readyState := 2\<rparr>"
        "Error ''ECONNREFUSED''"]
  by (simp add: Let_def run_def initial_state_def connectToDatabase_def establish_def
        mongoose_connect_def mongoose_connection_on_def console_out_def closeConnection_def
        mongoose_connection_close_def driver_reconnected_def emit_def)

subsection \<open>closeConnection\<close>

text \<open>
  When the teardown throws, the assignment \<open>cachedConnection = null\<close> of the \<open>try\<close> block
  is skipped: after a successful connect, a \<open>closeConnection\<close> whose teardown rejects
  leaves handle 1 in the cache.
\<close>

theorem close_keeps_cache_on_teardown_failure:
  "cachedConnection (snd (closeConnection (CloseRejects (Error ''teardown failed''))
       (run [Connect (ConnectResolves (Handle 1))]))) = Some (Handle 1)"
  by (simp add: run_def initial_state_def connectToDatabase_def establish_def
        mongoose_connect_def mongoose_connection_on_def console_out_def closeConnection_def
        mongoose_connection_close_def Let_def)

text \<open>
  Claim C9, amended.  \<open>closeConnection\<close> never throws.  Without a cached connection it
  changes nothing.  With one, it calls the driver's teardown once; when the teardown
  resolves the cache is null afterwards, and when it throws the error is logged and the
  cached handle stays as it was.
\<close>

theorem close_contract:
  "fst (closeConnection outcome s) = Return () \<and>
   (cachedConnection s = None \<longrightarrow> snd (closeConnection outcome s) = s) \<and>
   (cachedConnection s \<noteq> None \<longrightarrow>
      driverCalls (snd (closeConnection outcome s)) =
        driverCalls s @ [MongooseConnectionClose] \<and>
      (case outcome of
         CloseResolves \<Rightarrow>
           cachedConnection (snd (closeConnection outcome s)) = None \<and>
           console (snd (closeConnection outcome s)) = console s @ [LogConnectionClosed]
       | CloseRejects e \<Rightarrow>
           cachedConnection (snd (closeConnection outcome s)) = cachedConnection s \<and>
           console (snd (closeConnection outcome s)) = console s @ [ErrorClosing e]))"
  by (cases outcome)
     (auto simp: closeConnection_def mongoose_connection_close_def console_out_def Let_def
        split: option.splits)

text \<open>
  On a concrete run: closing after a connect clears the cache with one teardown call,
  and closing again changes nothing.
\<close>

theorem close_contract_witness:
  "(let s = run [Connect (ConnectResolves (Handle 1))];
        a = snd (closeConnection CloseResolves s);
        b = snd (closeConnection CloseResolves a)
    in cachedConnection s \<noteq> None \<and> cachedConnection a = None \<and> b = a \<and>
       driverCalls a = driverCalls s @ [MongooseConnectionClose])"
  using close_contract [of CloseResolves "run [Connect (ConnectResolves (Handle 1))]"]
    close_contract [of CloseResolves
      "snd (closeConnection CloseResolves (run [Connect (ConnectResolves (Handle 1))]))"]
  by (simp add: Let_def run_def initial_state_def connectToDatabase_def establish_def
        mongoose_connect_def mongoose_connection_on_def console_out_def)

section \<open>Properties of the matcher\<close>

text \<open>Where a match of each construct can end.\<close>

lemma in_reps:
  "(p', s', k') \<in> set (reps f p s k) \<longleftrightarrow>
     (\<exists>w. s = w @ s' \<and> (\<forall>c \<in> set w. f c) \<and> p' = p + length w \<and> k' = k)"
proof (induction s arbitrary: p)
  case Nil
  then show ?case by auto
next
  case (Cons c cs)
  show ?case
  proof
    assume "(p', s', k') \<in> set (reps f p (c # cs) k)"
    then consider "f c" "(p', s', k') \<in> set (reps f (Suc p) cs k)"
      | "p' = p" "s' = c # cs" "k' = k"
      by (auto split: if_splits)
    then show "\<exists>w. c # cs = w @ s' \<and> (\<forall>c \<in> set w. f c) \<and> p' = p + length w \<and> k' = k"
    proof cases
      case 1
      with Cons.IH [of "Suc p"] obtain w where
        "cs = w @ s'" "\<forall>c \<in> set w. f c" "p' = Suc p + length w" "k' = k" by auto
      with 1 have "c # cs = (c # w) @ s' \<and> (\<forall>x \<in> set (c # w). f x) \<and>
                   p' = p + length (c # w) \<and> k' = k" by simp
      then show ?thesis by blast
    next
      case 2
      then have "c # cs = [] @ s' \<and> (\<forall>x \<in> set []. f x) \<and> p' = p + length ([]::string) \<and> k' = k"
        by simp
      then show ?thesis by blast
    qed
  next
    assume "\<exists>w. c # cs = w @ s' \<and> (\<forall>c \<in> set w. f c) \<and> p' = p + length w \<and> k' = k"
    then obtain w where w: "c # cs = w @ s'" "\<forall>c \<in> set w. f c" "p' = p + length w" "k' = k"
      by blast
    show "(p', s', k') \<in> set (reps f p (c # cs) k)"
    proof (cases w)
      case Nil
      with w have "s' = c # cs" "p' = p" "k' = k" by simp_all
      then show ?thesis by simp
    next
      case (Cons x xs)
      with w have "x = c" "cs = xs @ s'" "f c" "\<forall>c \<in> set xs. f c" "p' = Suc p + length xs"
        by auto
      with Cons.IH [of "Suc p"] w(4) show ?thesis by auto
    qed
  qed
qed

lemma in_rmatch_Chr:
  "(p', s', k') \<in> set (rmatch (Chr c) (p, s, k)) \<longleftrightarrow> s = c # s' \<and> p' = Suc p \<and> k' = k"
  by (auto split: list.splits)

lemma in_rmatch_Str:
  "(p', s', k') \<in> set (rmatch (Str w) (p, s, k)) \<longleftrightarrow> s = w @ s' \<and> p' = p + length w \<and> k' = k"
  by (auto simp: prefix_def)

lemma in_rmatch_Bol:
  "(p', s', k') \<in> set (rmatch Bol (p, s, k)) \<longleftrightarrow> p = 0 \<and> p' = p \<and> s' = s \<and> k' = k"
  by auto

lemma in_rmatch_Eol:
  "(p', s', k') \<in> set (rmatch Eol (p, s, k)) \<longleftrightarrow> s = [] \<and> p' = p \<and> s' = s \<and> k' = k"
  by auto

lemma in_rmatch_Seq:
  "st'' \<in> set (rmatch (Seq a b) st) \<longleftrightarrow>
     (\<exists>p1 s1 k1. (p1, s1, k1) \<in> set (rmatch a st) \<and> st'' \<in> set (rmatch b (p1, s1, k1)))"
  by auto

lemma in_rmatch_Alt:
  "st' \<in> set (rmatch (Alt a b) st) \<longleftrightarrow> st' \<in> set (rmatch a st) \<or> st' \<in> set (rmatch b st)"
  by auto

lemma in_rmatch_Opt:
  "st' \<in> set (rmatch (Opt a) st) \<longleftrightarrow> st' \<in> set (rmatch a st) \<or> st' = st"
  by auto

lemma in_rmatch_Rep0:
  "(p', s', k') \<in> set (rmatch (Rep0 f) (p, s, k)) \<longleftrightarrow>
     (\<exists>w. s = w @ s' \<and> (\<forall>c \<in> set w. f c) \<and> p' = p + length w \<and> k' = k)"
  by (simp add: in_reps)

lemma in_rmatch_Rep1:
  "(p', s', k') \<in> set (rmatch (Rep1 f) (p, s, k)) \<longleftrightarrow>
     (\<exists>w. w \<noteq> [] \<and> s = w @ s' \<and> (\<forall>c \<in> set w. f c) \<and> p' = p + length w \<and> k' = k)"
proof (cases s)
  case Nil
  then show ?thesis by auto
next
  case (Cons x xs)
  show ?thesis
  proof
    assume "(p', s', k') \<in> set (rmatch (Rep1 f) (p, s, k))"
    with Cons have "f x" and "(p', s', k') \<in> set (reps f (Suc p) xs k)"
      by (auto split: if_splits)
    then obtain w where "xs = w @ s'" "\<forall>c \<in> set w. f c" "p' = Suc p + length w" "k' = k"
      by (auto simp: in_reps)
    with Cons \<open>f x\<close> have "x # w \<noteq> [] \<and> s = (x # w) @ s' \<and> (\<forall>c \<in> set (x # w). f c) \<and>
        p' = p + length (x # w) \<and> k' = k" by simp
    then show "\<exists>w. w \<noteq> [] \<and> s = w @ s' \<and> (\<forall>c \<in> set w. f c) \<and> p' = p + length w \<and> k' = k"
      by blast
  next
    assume "\<exists>w. w \<noteq> [] \<and> s = w @ s' \<and> (\<forall>c \<in> set w. f c) \<and> p' = p + length w \<and> k' = k"
    then obtain w where w: "w \<noteq> []" "s = w @ s'" "\<forall>c \<in> set w. f c" "p' = p + length w" "k' = k"
      by blast
    then obtain y ys where "w = y # ys" by (cases w) auto
    with w Cons have "y = x" "xs = ys @ s'" "f x" "\<forall>c \<in> set ys. f c" "p' = Suc p + length ys"
      by auto
    with Cons w(5) show "(p', s', k') \<in> set (rmatch (Rep1 f) (p, s, k))"
      by (auto simp: in_reps)
  qed
qed

lemma in_rmatch_Group:
  "(p', s', k') \<in> set (rmatch (Group i a) (p, s, k)) \<longleftrightarrow>
     (\<exists>k0. (p', s', k0) \<in> set (rmatch a (p, s, k)) \<and> k' = k0(i \<mapsto> take (p' - p) s))"
  by force

declare rmatch.simps [simp del]

text \<open>The first match from the left.\<close>

lemma exec_from_None:
  "exec_from r p s = None \<longleftrightarrow> (\<forall>i \<le> length s. rmatch r (p + i, drop i s, Map.empty) = [])"
proof (induction s arbitrary: p)
  case Nil
  then show ?case by (simp add: exec_from.simps [of r p "[]"] split: list.splits)
next
  case (Cons c cs)
  show ?case
  proof (cases "rmatch r (p, c # cs, Map.empty)")
    case Nil
    have "(\<forall>i \<le> length (c # cs). rmatch r (p + i, drop i (c # cs), Map.empty) = []) \<longleftrightarrow>
          (\<forall>j \<le> length cs. rmatch r (Suc p + j, drop j cs, Map.empty) = [])"
    proof
      assume a: "\<forall>i \<le> length (c # cs). rmatch r (p + i, drop i (c # cs), Map.empty) = []"
      show "\<forall>j \<le> length cs. rmatch r (Suc p + j, drop j cs, Map.empty) = []"
      proof (intro allI impI)
        fix j assume "j \<le> length cs"
        with a [rule_format, of "Suc j"] show "rmatch r (Suc p + j, drop j cs, Map.empty) = []"
          by simp
      qed
    next
      assume a: "\<forall>j \<le> length cs. rmatch r (Suc p + j, drop j cs, Map.empty) = []"
      show "\<forall>i \<le> length (c # cs). rmatch r (p + i, drop i (c # cs), Map.empty) = []"
      proof (intro allI impI)
        fix i assume i: "i \<le> length (c # cs)"
        show "rmatch r (p + i, drop i (c # cs), Map.empty) = []"
        proof (cases i)
          case 0
          with Nil show ?thesis by simp
        next
          case (Suc j)
          with i a [rule_format, of j] show ?thesis by simp
        qed
      qed
    qed
    with Nil Cons.IH [of "Suc p"] show ?thesis
      by (simp add: exec_from.simps [of r p "c # cs"])
  next
    case (Cons st rest)
    then have "exec_from r p (c # cs) \<noteq> None"
      by (simp add: exec_from.simps [of r p "c # cs"] split: prod.splits)
    moreover from Cons have "\<not> (\<forall>i \<le> length (c # cs). rmatch r (p + i, drop i (c # cs), Map.empty) = [])"
      by (auto intro: exI [of _ 0])
    ultimately show ?thesis by blast
  qed
qed

lemma exec_from_Some:
  "exec_from r p s = Some m \<Longrightarrow>
     \<exists>i p' s' k'. i \<le> length s \<and> (p', s', k') \<in> set (rmatch r (p + i, drop i s, Map.empty)) \<and>
        m = k'(0 \<mapsto> take (p' - (p + i)) (drop i s))"
proof (induction s arbitrary: p)
  case Nil
  then obtain p' s' k' rest where
    "rmatch r (p, [], Map.empty) = (p', s', k') # rest" "m = k'(0 \<mapsto> take (p' - p) [])"
    by (auto simp: exec_from.simps [of r p "[]"] split: list.splits)
  then have "0 \<le> length ([]::string) \<and>
      (p', s', k') \<in> set (rmatch r (p + 0, drop 0 [], Map.empty)) \<and>
      m = k'(0 \<mapsto> take (p' - (p + 0)) (drop 0 []))" by simp
  then show ?case by blast
next
  case (Cons c cs)
  show ?case
  proof (cases "rmatch r (p, c # cs, Map.empty)")
    case Nil
    with Cons.prems have "exec_from r (Suc p) cs = Some m"
      by (simp add: exec_from.simps [of r p "c # cs"])
    from Cons.IH [OF this] obtain i p' s' k' where
      "i \<le> length cs" "(p', s', k') \<in> set (rmatch r (Suc p + i, drop i cs, Map.empty))"
      "m = k'(0 \<mapsto> take (p' - (Suc p + i)) (drop i cs))" by blast
    then have "Suc i \<le> length (c # cs) \<and>
        (p', s', k') \<in> set (rmatch r (p + Suc i, drop (Suc i) (c # cs), Map.empty)) \<and>
        m = k'(0 \<mapsto> take (p' - (p + Suc i)) (drop (Suc i) (c # cs)))" by simp
    then show ?thesis by blast
  next
    case (Cons st rest)
    obtain p' s' k' where st: "st = (p', s', k')" by (cases st) auto
    with Cons Cons.prems have "m = k'(0 \<mapsto> take (p' - p) (c # cs))"
      by (auto simp: exec_from.simps [of r p "c # cs"])
    with Cons st have "0 \<le> length (c # cs) \<and>
        (p', s', k') \<in> set (rmatch r (p + 0, drop 0 (c # cs), Map.empty)) \<and>
        m = k'(0 \<mapsto> take (p' - (p + 0)) (drop 0 (c # cs)))" by simp
    then show ?thesis by blast
  qed
qed


subsection \<open>The static-asset expression\<close>

lemma rmatch_empty_iff: "rmatch r st = [] \<longleftrightarrow> (\<forall>st'. st' \<notin> set (rmatch r st))"
  by (cases "rmatch r st") auto

lemma in_rmatch_alts:
  "ws \<noteq> [] \<Longrightarrow>
   (p', s', k') \<in> set (rmatch (alts ws) (q, t, k)) \<longleftrightarrow>
     (\<exists>w \<in> set ws. t = w @ s' \<and> p' = q + length w \<and> k' = k)"
proof (induction ws rule: alts.induct)
  case 1
  then show ?case by simp
next
  case (2 w)
  show ?case by (simp add: in_rmatch_Str)
next
  case (3 w v ws)
  then have "(p', s', k') \<in> set (rmatch (alts (v # ws)) (q, t, k)) \<longleftrightarrow>
     (\<exists>w \<in> set (v # ws). t = w @ s' \<and> p' = q + length w \<and> k' = k)" by simp
  then show ?case
    by (simp add: in_rmatch_Alt in_rmatch_Str)
qed

lemma in_dot_words:
  assumes "W \<noteq> []"
  shows "(p', s', k') \<in> set (rmatch (Seq (Chr c) (Seq (Group i (alts W)) Eol)) (p, s, k)) \<longleftrightarrow>
     (\<exists>w \<in> set W. s = c # w \<and> s' = [] \<and> p' = Suc p + length w \<and> k' = k(i \<mapsto> w))"
  apply (simp only: in_rmatch_Seq Bex_def split_paired_Ex in_rmatch_Chr in_rmatch_Group
      in_rmatch_alts [OF assms] in_rmatch_Eol)
  apply (rule iffI)
   apply (elim exE conjE)
   apply (simp (no_asm_simp))
  apply (elim exE conjE)
  apply (simp (no_asm_simp))
  done

lemma dot_words_ends:
  assumes "W \<noteq> []"
  shows "rmatch (Seq (Chr c) (Seq (Group i (alts W)) Eol)) (p, s, k) = [] \<longleftrightarrow>
         s \<notin> set (map ((#) c) W)"
proof
  let ?R = "Seq (Chr c) (Seq (Group i (alts W)) Eol)"
  assume e: "rmatch ?R (p, s, k) = []"
  show "s \<notin> set (map ((#) c) W)"
  proof
    assume "s \<in> set (map ((#) c) W)"
    then obtain w where w: "w \<in> set W" "s = c # w" by auto
    then have "\<exists>w \<in> set W. s = c # w \<and> ([]::string) = [] \<and>
        Suc p + length w = Suc p + length w \<and> k(i \<mapsto> w) = k(i \<mapsto> w)" by blast
    then have "(Suc p + length w, [], k(i \<mapsto> w)) \<in> set (rmatch ?R (p, s, k))"
      using w by (simp only: in_dot_words [OF assms]) blast
    with e show False by simp
  qed
next
  let ?R = "Seq (Chr c) (Seq (Group i (alts W)) Eol)"
  assume n: "s \<notin> set (map ((#) c) W)"
  show "rmatch ?R (p, s, k) = []"
  proof (rule ccontr)
    assume "rmatch ?R (p, s, k) \<noteq> []"
    then obtain st' where "st' \<in> set (rmatch ?R (p, s, k))"
      by (cases "rmatch ?R (p, s, k)") auto
    moreover obtain p' s' k' where "st' = (p', s', k')" by (cases st') auto
    ultimately have "(p', s', k') \<in> set (rmatch ?R (p, s, k))" by simp
    then obtain w where "w \<in> set W" "s = c # w"
      by (simp only: in_dot_words [OF assms]) blast
    with n show False by simp
  qed
qed

lemma static_extensions_words:
  "static_extensions =
     map ((#) CHR ''.'') [''js'', ''css'', ''png'', ''jpg'', ''jpeg'', ''gif'', ''ico'', ''svg'']"
  unfolding static_extensions_def by (simp only: list.map)

lemma static_asset_ends:
  "rmatch static_asset_regex (p, s, k) = [] \<longleftrightarrow> s \<notin> set static_extensions"
  unfolding static_asset_regex_def static_extensions_words
  by (rule dot_words_ends) (rule list.distinct)

lemma static_asset_match:
  "string_match p static_asset_regex = None \<longleftrightarrow> \<not> is_static_asset p"
proof -
  have "string_match p static_asset_regex \<noteq> None \<longleftrightarrow>
        (\<exists>i \<le> length p. drop i p \<in> set static_extensions)"
    unfolding string_match_def exec_from_None static_asset_ends by auto
  also have "\<dots> \<longleftrightarrow> (\<exists>e \<in> set static_extensions. suffix e p)"
  proof
    assume "\<exists>i \<le> length p. drop i p \<in> set static_extensions"
    then obtain i where "drop i p \<in> set static_extensions" by blast
    moreover have "suffix (drop i p) p" by (rule suffix_drop)
    ultimately show "\<exists>e \<in> set static_extensions. suffix e p" by blast
  next
    assume "\<exists>e \<in> set static_extensions. suffix e p"
    then obtain e zs where e: "e \<in> set static_extensions" "p = zs @ e"
      by (auto simp: suffix_def)
    then have "length zs \<le> length p \<and> drop (length zs) p \<in> set static_extensions" by simp
    then show "\<exists>i \<le> length p. drop i p \<in> set static_extensions" by blast
  qed
  finally show ?thesis unfolding is_static_asset_def by blast
qed

text \<open>
  Claim C2.  For a path that ends with a static-asset extension \<open>setCacheHeaders\<close> sets
  \<open>Cache-Control\<close> to \<open>public, max-age=3600\<close>; otherwise, for a path that starts with
  \<open>/api/\<close>, to \<open>public, max-age=300\<close>; otherwise it sets no header.  In each
  case \<open>next\<close> is called exactly once and nothing else of the response changes.
\<close>

theorem setCacheHeaders_contract:
  "setCacheHeaders req res =
     (if is_static_asset (path req)
      then res\<lparr>res_headers := (res_headers res)(''Cache-Control'' \<mapsto> ''public, max-age=3600''),
               nextCalls := Suc (nextCalls res)\<rparr>
      else if prefix ''/api/'' (path req)
      then res\<lparr>res_headers := (res_headers res)(''Cache-Control'' \<mapsto> ''public, max-age=300''),
               nextCalls := Suc (nextCalls res)\<rparr>
      else res\<lparr>nextCalls := Suc (nextCalls res)\<rparr>)"
proof (cases "is_static_asset (path req)")
  case True
  then have "string_match (path req) static_asset_regex \<noteq> None"
    using static_asset_match [of "path req"] by blast
  with True show ?thesis
    unfolding setCacheHeaders_def by (simp add: call_next_def res_set_def)
next
  case False
  then have "string_match (path req) static_asset_regex = None"
    using static_asset_match [of "path req"] by blast
  with False show ?thesis
    unfolding setCacheHeaders_def by (simp add: startsWith_def call_next_def res_set_def)
qed

text \<open>
  Four requests: a script, an image under \<open>/api/\<close> (the extension wins), an API path
  and a page.
\<close>

theorem setCacheHeaders_contract_witness:
  "(let js = setCacheHeaders \<lparr>path = ''/static/app.min.js'', req_headers = Map.empty\<rparr> fresh_response;
        png = setCacheHeaders \<lparr>path = ''/api/logo.png'', req_headers = Map.empty\<rparr> fresh_response;
        api = setCacheHeaders \<lparr>path = ''/api/users'', req_headers = Map.empty\<rparr> fresh_response;
        page = setCacheHeaders \<lparr>path = ''/about'', req_headers = Map.empty\<rparr> fresh_response
    in res_headers js ''Cache-Control'' = Some ''public, max-age=3600'' \<and> nextCalls js = 1 \<and>
       res_headers png ''Cache-Control'' = Some ''public, max-age=3600'' \<and> nextCalls png = 1 \<and>
       res_headers api ''Cache-Control'' = Some ''public, max-age=300'' \<and> nextCalls api = 1 \<and>
       res_headers page ''Cache-Control'' = None \<and> nextCalls page = 1)"
proof -
  have a: "is_static_asset ''/static/app.min.js''" by code_simp
  have b: "is_static_asset ''/api/logo.png''" by code_simp
  have c: "\<not> is_static_asset ''/api/users''" by code_simp
  have d: "\<not> is_static_asset ''/about''" by code_simp
  show ?thesis
    using a b c d
      setCacheHeaders_contract [of "\<lparr>path = ''/static/app.min.js'', req_headers = Map.empty\<rparr>" fresh_response]
      setCacheHeaders_contract [of "\<lparr>path = ''/api/logo.png'', req_headers = Map.empty\<rparr>" fresh_response]
      setCacheHeaders_contract [of "\<lparr>path = ''/api/users'', req_headers = Map.empty\<rparr>" fresh_response]
      setCacheHeaders_contract [of "\<lparr>path = ''/about'', req_headers = Map.empty\<rparr>" fresh_response]
    by (simp add: Let_def fresh_response_def)
qed

subsection \<open>The size expression\<close>

lemma in_number_part:
  "(p', s', k') \<in> set (rmatch (Seq (Rep1 is_digit) (Opt (Seq (Chr CHR ''.'') (Rep1 is_digit)))) (p, s, k))
   \<longleftrightarrow> (\<exists>n. decimal_number n \<and> s = n @ s' \<and> p' = p + length n \<and> k' = k)"
proof
  assume "(p', s', k') \<in> set (rmatch (Seq (Rep1 is_digit) (Opt (Seq (Chr CHR ''.'') (Rep1 is_digit)))) (p, s, k))"
  then obtain p1 s1 k1 where
    a: "(p1, s1, k1) \<in> set (rmatch (Rep1 is_digit) (p, s, k))" and
    b: "(p', s', k') \<in> set (rmatch (Opt (Seq (Chr CHR ''.'') (Rep1 is_digit))) (p1, s1, k1))"
    by (auto simp: in_rmatch_Seq)
  from a obtain ds where ds: "digits ds" "s = ds @ s1" "p1 = p + length ds" "k1 = k"
    by (auto simp: in_rmatch_Rep1 digits_def)
  from b consider "(p', s', k') = (p1, s1, k1)"
    | fd where "digits fd" "s1 = CHR ''.'' # fd @ s'" "p' = Suc p1 + length fd" "k' = k1"
    by (auto simp: in_rmatch_Opt in_rmatch_Seq in_rmatch_Chr in_rmatch_Rep1 digits_def)
  then show "\<exists>n. decimal_number n \<and> s = n @ s' \<and> p' = p + length n \<and> k' = k"
  proof cases
    case 1
    with ds have "decimal_number ds \<and> s = ds @ s' \<and> p' = p + length ds \<and> k' = k"
      by (simp add: decimal_number_def)
    then show ?thesis by blast
  next
    case 2
    with ds have "decimal_number (ds @ CHR ''.'' # fd) \<and> s = (ds @ CHR ''.'' # fd) @ s' \<and>
        p' = p + length (ds @ CHR ''.'' # fd) \<and> k' = k"
      by (auto simp: decimal_number_def)
    then show ?thesis by blast
  qed
next
  assume "\<exists>n. decimal_number n \<and> s = n @ s' \<and> p' = p + length n \<and> k' = k"
  then obtain n where n: "decimal_number n" "s = n @ s'" "p' = p + length n" "k' = k" by blast
  from n(1) consider "digits n" | ds fd where "digits ds" "digits fd" "n = ds @ CHR ''.'' # fd"
    by (auto simp: decimal_number_def)
  then show "(p', s', k') \<in> set (rmatch (Seq (Rep1 is_digit) (Opt (Seq (Chr CHR ''.'') (Rep1 is_digit)))) (p, s, k))"
  proof cases
    case 1
    with n have "(p', s', k') \<in> set (rmatch (Rep1 is_digit) (p, s, k))"
      by (auto simp: in_rmatch_Rep1 digits_def)
    then show ?thesis by (auto simp: in_rmatch_Seq in_rmatch_Opt)
  next
    case 2
    let ?mid = "(p + length ds, CHR ''.'' # fd @ s', k)"
    from 2 n have "?mid \<in> set (rmatch (Rep1 is_digit) (p, s, k))"
      by (auto simp: in_rmatch_Rep1 digits_def)
    moreover from 2 n have "(p', s', k') \<in> set (rmatch (Opt (Seq (Chr CHR ''.'') (Rep1 is_digit))) ?mid)"
      by (simp add: in_rmatch_Opt in_rmatch_Seq in_rmatch_Chr in_rmatch_Rep1 digits_def)
    ultimately show ?thesis unfolding in_rmatch_Seq [where b = "Opt r" for r] by blast
  qed
qed

lemma in_number_group:
  "(p', s', k') \<in> set (rmatch (Group i (Seq (Rep1 is_digit) (Opt (Seq (Chr CHR ''.'') (Rep1 is_digit))))) (p, s, k))
   \<longleftrightarrow> (\<exists>n. decimal_number n \<and> s = n @ s' \<and> p' = p + length n \<and> k' = k(i \<mapsto> n))"
  unfolding in_rmatch_Group in_number_part by auto

lemma in_unit_part:
  assumes "U \<noteq> []"
  shows "(p', s', k') \<in> set (rmatch (Seq (Opt (Group 2 (alts U))) Eol) (p, s, k)) \<longleftrightarrow>
     s' = [] \<and> p' = p + length s \<and>
     ((s = [] \<and> k' = k) \<or> (s \<in> set U \<and> k' = k(2 \<mapsto> s)))"
  by (auto simp: in_rmatch_Seq in_rmatch_Opt in_rmatch_Group in_rmatch_alts [OF assms]
        in_rmatch_Eol)

lemma in_size_shape:
  assumes "U \<noteq> []"
  shows "(p', s', k') \<in> set (rmatch
       (Seq Bol
         (Seq (Group 1 (Seq (Rep1 is_digit) (Opt (Seq (Chr CHR ''.'') (Rep1 is_digit)))))
           (Seq (Rep0 is_space) (Seq (Opt (Group 2 (alts U))) Eol)))) (p, s, k)) \<longleftrightarrow>
     p = 0 \<and> s' = [] \<and> p' = length s \<and>
     (\<exists>n ws u. s = n @ ws @ u \<and> decimal_number n \<and> (\<forall>c \<in> set ws. is_space c) \<and>
        ((u = [] \<and> k' = k(1 \<mapsto> n)) \<or> (u \<in> set U \<and> k' = k(1 \<mapsto> n, 2 \<mapsto> u))))"
  unfolding in_rmatch_Seq [where a = Bol] in_rmatch_Seq [where a = "Group i r" for i r]
    in_rmatch_Seq [where a = "Rep0 f" for f] in_rmatch_Bol in_number_group in_rmatch_Rep0
    in_unit_part [OF assms]
proof (intro iffI; (elim exE conjE)?)
  fix p1 s1 k1 p2 s2 k2 p3 s3 k3 n w
  assume a: "p = 0" "p1 = p" "s1 = s" "k1 = k" "decimal_number n" "s1 = n @ s2"
    "p2 = p1 + length n" "k2 = k1(1 \<mapsto> n)" "s2 = w @ s3" "\<forall>c \<in> set w. is_space c"
    "p3 = p2 + length w" "k3 = k2" "s' = []" "p' = p3 + length s3"
    "s3 = [] \<and> k' = k3 \<or> s3 \<in> set U \<and> k' = k3(2 \<mapsto> s3)"
  then have "s = n @ w @ s3 \<and> decimal_number n \<and> (\<forall>c \<in> set w. is_space c) \<and>
      ((s3 = [] \<and> k' = k(1 \<mapsto> n)) \<or> (s3 \<in> set U \<and> k' = k(1 \<mapsto> n, 2 \<mapsto> s3)))"
    by auto
  then have "\<exists>n ws u. s = n @ ws @ u \<and> decimal_number n \<and> (\<forall>c \<in> set ws. is_space c) \<and>
        ((u = [] \<and> k' = k(1 \<mapsto> n)) \<or> (u \<in> set U \<and> k' = k(1 \<mapsto> n, 2 \<mapsto> u)))"
    by blast
  moreover from a have "p' = length s" by auto
  ultimately show "p = 0 \<and> s' = [] \<and> p' = length s \<and>
     (\<exists>n ws u. s = n @ ws @ u \<and> decimal_number n \<and> (\<forall>c \<in> set ws. is_space c) \<and>
        ((u = [] \<and> k' = k(1 \<mapsto> n)) \<or> (u \<in> set U \<and> k' = k(1 \<mapsto> n, 2 \<mapsto> u))))"
    using a by blast
next
  fix n ws u
  assume a: "p = 0" "s' = []" "p' = length s" "s = n @ ws @ u" "decimal_number n"
    "\<forall>c \<in> set ws. is_space c"
    "u = [] \<and> k' = k(1 \<mapsto> n) \<or> u \<in> set U \<and> k' = k(1 \<mapsto> n, 2 \<mapsto> u)"
  let ?k1 = "k(1 \<mapsto> n)"
  have 3: "(\<exists>w. ws @ u = w @ u \<and> (\<forall>c \<in> set w. is_space c) \<and>
             length n + length ws = length n + length w \<and> ?k1 = ?k1) \<and>
           s' = [] \<and> p' = (length n + length ws) + length u \<and>
           (u = [] \<and> k' = ?k1 \<or> u \<in> set U \<and> k' = ?k1(2 \<mapsto> u))"
    using a by auto
  have 2: "(\<exists>m. decimal_number m \<and> s = m @ ws @ u \<and> length n = p + length m \<and>
              ?k1 = k(1 \<mapsto> m))"
    using a by auto
  show "\<exists>p1 s1 k1.
       (p = 0 \<and> p1 = p \<and> s1 = s \<and> k1 = k) \<and>
       (\<exists>p1a s1a k1a.
           (\<exists>n. decimal_number n \<and> s1 = n @ s1a \<and> p1a = p1 + length n \<and> k1a = k1(1 \<mapsto> n)) \<and>
           (\<exists>p1 s1 k1.
               (\<exists>w. s1a = w @ s1 \<and> (\<forall>c\<in>set w. is_space c) \<and> p1 = p1a + length w \<and> k1 = k1a) \<and>
               s' = [] \<and>
               p' = p1 + length s1 \<and> (s1 = [] \<and> k' = k1 \<or> s1 \<in> set U \<and> k' = k1(2 \<mapsto> s1))))"
    apply (rule exI [of _ p], rule exI [of _ s], rule exI [of _ k])
    apply (rule conjI)
     apply (simp add: a)
    apply (rule exI [of _ "length n"], rule exI [of _ "ws @ u"], rule exI [of _ ?k1])
    apply (rule conjI)
     apply (rule 2)
    apply (rule exI [of _ "length n + length ws"], rule exI [of _ u], rule exI [of _ ?k1])
    apply (rule 3)
    done
qed

lemma in_size_regex:
  "(p', s', k') \<in> set (rmatch size_regex (p, s, k)) \<longleftrightarrow>
     p = 0 \<and> s' = [] \<and> p' = length s \<and>
     (\<exists>n ws u. s = n @ ws @ u \<and> decimal_number n \<and> (\<forall>c \<in> set ws. is_space c) \<and>
        ((u = [] \<and> k' = k(1 \<mapsto> n)) \<or> (u \<in> set unit_words \<and> k' = k(1 \<mapsto> n, 2 \<mapsto> u))))"
  unfolding size_regex_def by (rule in_size_shape) (simp add: unit_words_def)

lemma size_match_None: "string_match s size_regex = None \<longleftrightarrow> \<not> size_pattern s"
proof
  assume none: "string_match s size_regex = None"
  show "\<not> size_pattern s"
  proof
    assume "size_pattern s"
    then obtain n ws u where d: "s = n @ ws @ u" "decimal_number n" "\<forall>c \<in> set ws. is_space c"
      "u = [] \<or> u \<in> set unit_words"
      unfolding size_pattern_def by blast
    define k' :: captures where "k' = (if u = [] then [1 \<mapsto> n] else [1 \<mapsto> n, 2 \<mapsto> u])"
    from d have "(u = [] \<and> k' = Map.empty(1 \<mapsto> n)) \<or>
        (u \<in> set unit_words \<and> k' = Map.empty(1 \<mapsto> n, 2 \<mapsto> u))"
      by (auto simp: k'_def)
    with d have "(length s, [], k') \<in> set (rmatch size_regex (0, s, Map.empty))"
      unfolding in_size_regex by blast
    moreover from none have "rmatch size_regex (0 + 0, drop 0 s, Map.empty) = []"
      unfolding string_match_def exec_from_None by blast
    ultimately show False by simp
  qed
next
  assume n: "\<not> size_pattern s"
  have "rmatch size_regex (0 + i, drop i s, Map.empty) = []" for i
  proof (rule ccontr)
    assume "rmatch size_regex (0 + i, drop i s, Map.empty) \<noteq> []"
    then obtain st' where "st' \<in> set (rmatch size_regex (0 + i, drop i s, Map.empty))"
      by (cases "rmatch size_regex (0 + i, drop i s, Map.empty)") auto
    moreover obtain p' s' k' where "st' = (p', s', k')" by (cases st') auto
    ultimately have m: "(p', s', k') \<in> set (rmatch size_regex (0 + i, drop i s, Map.empty))"
      by simp
    then have "i = 0" unfolding in_size_regex by simp
    with m have "size_pattern s" unfolding in_size_regex size_pattern_def by auto
    with n show False by simp
  qed
  then show "string_match s size_regex = None"
    unfolding string_match_def exec_from_None by blast
qed

lemma size_match_Some:
  assumes "string_match s size_regex = Some m"
  shows "\<exists>n ws u. s = n @ ws @ u \<and> decimal_number n \<and> (\<forall>c \<in> set ws. is_space c) \<and>
           m 1 = Some n \<and> ((u = [] \<and> m 2 = None) \<or> (u \<in> set unit_words \<and> m 2 = Some u))"
proof -
  from assms obtain i p' s' k' where
    a: "(p', s', k') \<in> set (rmatch size_regex (0 + i, drop i s, Map.empty))"
       "m = k'(0 \<mapsto> take (p' - (0 + i)) (drop i s))"
    unfolding string_match_def using exec_from_Some by blast
  from a(1) have "i = 0" unfolding in_size_regex by simp
  with a(1) obtain n ws u where d: "s = n @ ws @ u" "decimal_number n" "\<forall>c \<in> set ws. is_space c"
    "(u = [] \<and> k' = Map.empty(1 \<mapsto> n)) \<or> (u \<in> set unit_words \<and> k' = Map.empty(1 \<mapsto> n, 2 \<mapsto> u))"
    unfolding in_size_regex by auto
  from d(4) a(2) have "m 1 = Some n \<and> ((u = [] \<and> m 2 = None) \<or> (u \<in> set unit_words \<and> m 2 = Some u))"
    by auto
  with d show ?thesis by blast
qed

subsection \<open>parseSize never yields a negative number\<close>

lemma digit_not_space: "is_digit c \<Longrightarrow> \<not> is_space c"
  unfolding is_digit_def is_space_def by auto

lemma digit_not_sign: "is_digit c \<Longrightarrow> c \<noteq> CHR ''-'' \<and> c \<noteq> CHR ''+'' \<and> c \<noteq> CHR ''I''"
  unfolding is_digit_def by auto

lemma digit_value_nonneg: "0 \<le> digit_value c"
  unfolding digit_value_def Let_def by simp

lemma foldl_digits_nonneg:
  "0 \<le> r \<Longrightarrow> 0 \<le> acc \<Longrightarrow> 0 \<le> foldl (\<lambda>acc c. acc * r + digit_value c) acc ds"
proof (induction ds arbitrary: acc)
  case Nil
  then show ?case by simp
next
  case (Cons d ds)
  from Cons.prems have "0 \<le> acc * r + digit_value d"
    using digit_value_nonneg [of d] by simp
  with Cons.IH [OF Cons.prems(1)] show ?case by simp
qed

lemma digits_value_nonneg: "0 \<le> r \<Longrightarrow> 0 \<le> digits_value r ds"
  unfolding digits_value_def by (rule foldl_digits_nonneg) simp_all

lemma pow2_pos: "0 < pow2 e"
  unfolding pow2_def by simp

lemma pow10_pos: "0 < pow10 e"
  unfolding pow10_def by simp

lemma round_half_even_nonneg: "0 \<le> x \<Longrightarrow> 0 \<le> round_half_even x"
  unfolding round_half_even_def Let_def by (auto simp: zero_le_floor)

lemma round_positive_nonneg: "0 \<le> q \<Longrightarrow> nonnegative (round_positive q)"
proof -
  assume q: "0 \<le> q"
  define e where "e = max (floor_log2 q - 52) (- 1074)"
  have "0 \<le> q / pow2 e" using q pow2_pos [of e] by simp
  then have "0 \<le> round_half_even (q / pow2 e)" by (rule round_half_even_nonneg)
  then have "0 \<le> of_int (round_half_even (q / pow2 e)) * pow2 e"
    using pow2_pos [of e] by simp
  then show ?thesis
    unfolding round_positive_def Let_def nonnegative_def e_def by simp
qed

lemma to_double_nonneg: "0 \<le> q \<Longrightarrow> nonnegative (to_double q)"
  unfolding to_double_def using round_positive_nonneg [of q]
  by (auto simp: nonnegative_def)

lemma decimal_number_head: "decimal_number n \<Longrightarrow> \<exists>c cs. n = c # cs \<and> is_digit c"
proof -
  assume "decimal_number n"
  then obtain ds r where "digits ds" "n = ds @ r"
    unfolding decimal_number_def by (metis append_Nil2)
  then show ?thesis unfolding digits_def by (cases ds) auto
qed

lemma parseFloat_decimal:
  assumes "decimal_number n"
  shows "nonnegative (parseFloat n)"
proof -
  from assms obtain c cs where n: "n = c # cs" "is_digit c"
    using decimal_number_head by blast
  have 1: "dropWhile is_space n = n" using n digit_not_space by simp
  have 2: "strip_sign n = (False, n)" using n digit_not_sign [of c] by (simp add: strip_sign_def)
  have 3: "\<not> prefix ''Infinity'' n" using n digit_not_sign [of c] by auto
  have 4: "takeWhile is_digit n \<noteq> []" using n by simp
  define ip where "ip = takeWhile is_digit n"
  define r1 where "r1 = dropWhile is_digit n"
  define dot where "dot = (case r1 of c # cs \<Rightarrow> c = CHR ''.'' | [] \<Rightarrow> False)"
  define fp where "fp = (if dot then takeWhile is_digit (tl r1) else [])"
  define r2 where "r2 = (if dot then dropWhile is_digit (tl r1) else r1)"
  have "parseFloat n =
      to_double (of_int (digits_value 10 (ip @ fp)) * pow10 (- int (length fp)) *
                 pow10 (exponent_part r2))"
    unfolding parseFloat_def 1 2 using 3 4
    by (simp add: Let_def ip_def r1_def dot_def fp_def r2_def)
  moreover have "(0::rat) \<le> of_int (digits_value 10 (ip @ fp)) * pow10 (- int (length fp)) *
                 pow10 (exponent_part r2)"
    using digits_value_nonneg [of 10 "ip @ fp"] pow10_pos [of "- int (length fp)"]
      pow10_pos [of "exponent_part r2"] by simp
  ultimately show ?thesis using to_double_nonneg by simp
qed

lemma units_positive:
  "u \<in> set unit_words \<Longrightarrow> \<exists>q. 0 < q \<and> units u = Some (Finite q)"
  unfolding unit_words_def units_def by auto

lemma units_b: "units ''b'' = Some (Finite 1)"
  unfolding units_def by simp

lemma unit_words_nonempty: "u \<in> set unit_words \<Longrightarrow> u \<noteq> []"
  unfolding unit_words_def by auto

lemma multiply_nonneg:
  "nonnegative x \<Longrightarrow> 0 < q \<Longrightarrow> nonnegative (multiply x (Finite q))"
  unfolding multiply_def
  by (cases x) (auto simp: nonnegative_def sign_of_def intro: to_double_nonneg [unfolded nonnegative_def])

lemma Math_floor_nonneg: "nonnegative x \<Longrightarrow> nonnegative (Math_floor x)"
  unfolding Math_floor_def nonnegative_def by (cases x) (auto simp: zero_le_floor)

lemma parseSize_nonneg: "nonnegative (parseSize s)"
proof (cases "string_match (toLowerCase s) size_regex")
  case None
  then show ?thesis by (simp add: parseSize_def nonnegative_def)
next
  case (Some m)
  from size_match_Some [OF Some] obtain n ws u where
    d: "decimal_number n" "m 1 = Some n"
       "(u = [] \<and> m 2 = None) \<or> (u \<in> set unit_words \<and> m 2 = Some u)"
    by blast
  define unit where "unit = (case m 2 of None \<Rightarrow> ''b'' | Some u \<Rightarrow> if u = [] then ''b'' else u)"
  from d(3) have "unit = ''b'' \<or> unit \<in> set unit_words"
    unfolding unit_def using unit_words_nonempty by auto
  then obtain q where q: "0 < q" "units unit = Some (Finite q)"
    using units_positive units_b by (metis zero_less_one)
  have "parseSize s = Math_floor (multiply (parseFloat n) (Finite q))"
    unfolding parseSize_def Some using d(2) q(2)
    by (simp add: Let_def to_string_def unit_def [symmetric])
  with parseFloat_decimal [OF d(1)] q(1) show ?thesis
    by (simp add: Math_floor_nonneg multiply_nonneg)
qed

lemma greater_nonneg_truthy: "nonnegative y \<Longrightarrow> greater x y \<Longrightarrow> truthy x"
  unfolding nonnegative_def greater_def truthy_def
  by (cases x; cases y) auto

subsection \<open>The parts of a size string are determined by it\<close>

lemma takeWhile_run:
  "\<forall>x \<in> set xs. P x \<Longrightarrow> ys = [] \<or> \<not> P (hd ys) \<Longrightarrow> takeWhile P (xs @ ys) = xs"
  by (cases ys) (simp_all add: takeWhile_append2)

lemma decimal_number_chars: "decimal_number n \<Longrightarrow> \<forall>c \<in> set n. number_char c"
  unfolding decimal_number_def digits_def number_char_def by auto

lemma space_not_number_char: "is_space c \<Longrightarrow> \<not> number_char c"
  unfolding number_char_def is_space_def is_digit_def by auto

lemma unit_word_head:
  "u \<in> set unit_words \<Longrightarrow> u \<noteq> [] \<and> \<not> number_char (hd u) \<and> \<not> is_space (hd u)"
  unfolding unit_words_def number_char_def is_space_def is_digit_def by auto

lemma tail_head:
  assumes "\<forall>c \<in> set ws. is_space c" "u = [] \<or> u \<in> set unit_words"
  shows "ws @ u = [] \<or> \<not> number_char (hd (ws @ u))"
proof (cases ws)
  case Nil
  with assms(2) show ?thesis using unit_word_head by auto
next
  case (Cons c cs)
  with assms(1) show ?thesis using space_not_number_char by simp
qed

lemma size_shape_unique:
  assumes "s = n @ ws @ u" "decimal_number n" "\<forall>c \<in> set ws. is_space c"
      "u = [] \<or> u \<in> set unit_words"
    and "s = n' @ ws' @ u'" "decimal_number n'" "\<forall>c \<in> set ws'. is_space c"
      "u' = [] \<or> u' \<in> set unit_words"
  shows "n' = n \<and> u' = u"
proof -
  have "takeWhile number_char (n @ ws @ u) = n"
    using assms(2-4) by (intro takeWhile_run decimal_number_chars tail_head)
  moreover have "takeWhile number_char (n' @ ws' @ u') = n'"
    using assms(6-8) by (intro takeWhile_run decimal_number_chars tail_head)
  ultimately have n: "n' = n" using assms(1,5) by simp
  with assms(1,5) have r: "ws @ u = ws' @ u'" by simp
  have "takeWhile is_space (ws @ u) = ws"
    using assms(3,4) unit_word_head by (intro takeWhile_run) auto
  moreover have "takeWhile is_space (ws' @ u') = ws'"
    using assms(7,8) unit_word_head by (intro takeWhile_run) auto
  ultimately have "ws' = ws" using r by simp
  with r n show ?thesis by simp
qed

lemma units_table:
  "u \<in> set unit_words \<Longrightarrow> units u = Some (Finite (unit_factor u))"
  unfolding unit_words_def units_def unit_factor_def by auto

lemma parseSize_formula:
  assumes "toLowerCase s = n @ ws @ u" "decimal_number n" "\<forall>c \<in> set ws. is_space c"
      "u = [] \<or> u \<in> set unit_words"
  shows "parseSize s = Math_floor (multiply (parseFloat n) (Finite (unit_factor u)))"
proof -
  from assms have "size_pattern (toLowerCase s)" unfolding size_pattern_def by blast
  then obtain m where m: "string_match (toLowerCase s) size_regex = Some m"
    using size_match_None [of "toLowerCase s"] by auto
  from size_match_Some [OF m] obtain n' ws' u' where
    d: "toLowerCase s = n' @ ws' @ u'" "decimal_number n'" "\<forall>c \<in> set ws'. is_space c"
       "m 1 = Some n'" "(u' = [] \<and> m 2 = None) \<or> (u' \<in> set unit_words \<and> m 2 = Some u')"
    by blast
  from d(5) have "u' = [] \<or> u' \<in> set unit_words" by blast
  from size_shape_unique [OF assms d(1-3) this] have e: "n' = n" "u' = u" by simp_all
  define unit where "unit = (case m 2 of None \<Rightarrow> ''b'' | Some u \<Rightarrow> if u = [] then ''b'' else u)"
  have "units unit = Some (Finite (unit_factor u))"
  proof (cases "u = []")
    case True
    with d(5) e have "unit = ''b''" using unit_words_nonempty by (auto simp: unit_def)
    with True show ?thesis by (simp add: units_b unit_factor_def)
  next
    case False
    with d(5) e have "unit = u" "u \<in> set unit_words" by (auto simp: unit_def)
    then show ?thesis by (simp add: units_table)
  qed
  then show ?thesis
    unfolding parseSize_def m using d(4) e
    by (simp add: Let_def to_string_def unit_def [symmetric])
qed

subsection \<open>parseSize\<close>

text \<open>The equations that evaluate the number and parsing functions on literals.\<close>

lemmas number_eval =
  to_double_def round_positive_def floor_log2_def round_half_even_def pow2_def pow10_def
  bit_length.simps multiply_def Math_floor_def negate_def Let_def

lemmas parse_eval =
  parseFloat_def parseInt_def strip_sign_def exponent_part_def digits_value_def
  digit_value_def is_digit_def is_space_def is_hex_digit_def

lemma digits_literal: "digits ''10''" "digits ''1''" "digits ''5''"
  by (simp_all add: digits_def is_digit_def)

lemma parseSize_10mb: "parseSize ''10mb'' = Finite 10485760"
proof -
  have a: "toLowerCase ''10mb'' = ''10'' @ [] @ ''mb''" by code_simp
  have b: "decimal_number ''10''" by (simp add: decimal_number_def digits_literal)
  have c: "\<forall>c \<in> set ([]::string). is_space c" by simp
  have d: "''mb'' = [] \<or> ''mb'' \<in> set unit_words" by (simp add: unit_words_def)
  have "parseSize ''10mb'' =
      Math_floor (multiply (parseFloat ''10'') (Finite (unit_factor ''mb'')))"
    by (rule parseSize_formula [OF a b c d])
  also have "\<dots> = Finite 10485760"
    by (simp add: parse_eval number_eval unit_factor_def)
  finally show ?thesis .
qed

lemma parseSize_1kb: "parseSize ''1kb'' = Finite 1024"
proof -
  have a: "toLowerCase ''1kb'' = ''1'' @ [] @ ''kb''" by code_simp
  have b: "decimal_number ''1''" by (simp add: decimal_number_def digits_literal)
  have c: "\<forall>c \<in> set ([]::string). is_space c" by simp
  have d: "''kb'' = [] \<or> ''kb'' \<in> set unit_words" by (simp add: unit_words_def)
  have "parseSize ''1kb'' =
      Math_floor (multiply (parseFloat ''1'') (Finite (unit_factor ''kb'')))"
    by (rule parseSize_formula [OF a b c d])
  also have "\<dots> = Finite 1024"
    by (simp add: parse_eval number_eval unit_factor_def)
  finally show ?thesis .
qed

lemma parseSize_bogus: "parseSize ''bogus'' = Finite 0"
proof -
  have "string_match (toLowerCase ''bogus'') size_regex = None" by code_simp
  then show ?thesis by (simp add: parseSize_def)
qed

lemma parseSize_no_match: "\<not> size_pattern (toLowerCase s) \<Longrightarrow> parseSize s = Finite 0"
  using size_match_None [of "toLowerCase s"] by (simp add: parseSize_def)

text \<open>
  Claim C3.  \<open>parseSize "10mb"\<close> is 10485760, \<open>parseSize "1kb"\<close> is 1024 and
  \<open>parseSize "bogus"\<close> is 0.  A string whose lower-case form is not a number followed by
  optional white space and an optional unit gives 0.  A string whose lower-case form is
  the number \<open>n\<close>, white space and the unit \<open>u\<close> gives the floor of the product of
  \<open>parseFloat n\<close> and the factor of \<open>u\<close> in the table
  \<open>{b:1, kb:1024, mb:1024^2, gb:1024^3}\<close>.
\<close>

theorem parseSize_contract:
  "parseSize ''10mb'' = Finite 10485760 \<and> parseSize ''1kb'' = Finite 1024 \<and>
   parseSize ''bogus'' = Finite 0 \<and>
   (\<not> size_pattern (toLowerCase s) \<longrightarrow> parseSize s = Finite 0) \<and>
   (toLowerCase s = n @ ws @ u \<and> decimal_number n \<and> (\<forall>c \<in> set ws. is_space c) \<and>
      (u = [] \<or> u \<in> set unit_words) \<longrightarrow>
    parseSize s = Math_floor (multiply (parseFloat n) (Finite (unit_factor u))))"
proof (intro conjI impI)
  show "parseSize ''10mb'' = Finite 10485760" by (rule parseSize_10mb)
  show "parseSize ''1kb'' = Finite 1024" by (rule parseSize_1kb)
  show "parseSize ''bogus'' = Finite 0" by (rule parseSize_bogus)
  show "parseSize s = Finite 0" if "\<not> size_pattern (toLowerCase s)"
    using that by (rule parseSize_no_match)
  show "parseSize s = Math_floor (multiply (parseFloat n) (Finite (unit_factor u)))"
    if "toLowerCase s = n @ ws @ u \<and> decimal_number n \<and> (\<forall>c \<in> set ws. is_space c) \<and>
        (u = [] \<or> u \<in> set unit_words)"
    using that by (intro parseSize_formula [of s n ws u]) simp_all
qed

text \<open>
  Two strings: \<open>1.5.2\<close> does not have the shape and gives 0; \<open>1.5 KB\<close> has it, with
  number \<open>1.5\<close> and unit \<open>kb\<close>, and gives 1536.
\<close>

theorem parseSize_contract_witness:
  "\<not> size_pattern (toLowerCase ''1.5.2'') \<and> parseSize ''1.5.2'' = Finite 0 \<and>
   decimal_number ''1.5'' \<and> ''kb'' \<in> set unit_words \<and>
   parseSize ''1.5 KB'' = Math_floor (multiply (parseFloat ''1.5'') (Finite (unit_factor ''kb''))) \<and>
   Math_floor (multiply (parseFloat ''1.5'') (Finite (unit_factor ''kb''))) = Finite 1536"
proof -
  have "string_match (toLowerCase ''1.5.2'') size_regex = None" by code_simp
  then have a: "\<not> size_pattern (toLowerCase ''1.5.2'')" using size_match_None by blast
  have "\<exists>ds fd. digits ds \<and> digits fd \<and> ''1.5'' = ds @ CHR ''.'' # fd"
    using digits_literal by (intro exI [of _ "''1''"] exI [of _ "''5''"]) simp
  then have b: "decimal_number ''1.5''" unfolding decimal_number_def by (rule disjI2)
  have c: "toLowerCase ''1.5 KB'' = ''1.5'' @ '' '' @ ''kb''" by code_simp
  have d: "\<forall>c \<in> set '' ''. is_space c" by (simp add: is_space_def)
  have e: "''kb'' \<in> set unit_words" by (simp add: unit_words_def)
  have f: "Math_floor (multiply (parseFloat ''1.5'') (Finite (unit_factor ''kb''))) = Finite 1536"
    by (simp add: parse_eval number_eval unit_factor_def)
  have g: "parseSize ''1.5.2'' = Finite 0"
    using a parseSize_contract [of "''1.5.2''"] by simp
  have h: "parseSize ''1.5 KB'' =
      Math_floor (multiply (parseFloat ''1.5'') (Finite (unit_factor ''kb'')))"
    using b c d e parseSize_contract [of "''1.5 KB''" "''1.5''" "'' ''" "''kb''"]
    by simp
  from a b e f g h show ?thesis by (intro conjI)
qed

subsection \<open>requestSizeLimiter\<close>

text \<open>
  Claim C4.  When the \<open>content-length\<close> header parses to a number greater than
  \<open>parseSize limit\<close>, the middleware answers with status 413 and the body
  \<open>{success: false, error: "Request entity too large", maxSize: limit}\<close> and does not
  call \<open>next\<close>.  In every other case (a length at or below the ceiling, or a header
  that is missing or not a number) it calls \<open>next\<close> exactly once and leaves the response
  alone.  Without an argument the limit is \<open>10mb\<close>.
\<close>

theorem requestSizeLimiter_contract:
  "requestSizeLimiter (Some limit) req res =
     (if greater (parseInt (to_string (req_headers req ''content-length''))) (parseSize limit)
      then res\<lparr>statusCode := 413,
               jsonSent := jsonSent res @
                 [JObject [(''success'', JBool False),
                           (''error'', JString ''Request entity too large''),
                           (''maxSize'', JString limit)]]\<rparr>
      else res\<lparr>nextCalls := Suc (nextCalls res)\<rparr>) \<and>
   requestSizeLimiter None req res = requestSizeLimiter (Some ''10mb'') req res"
proof -
  let ?cl = "parseInt (to_string (req_headers req ''content-length''))"
  have "greater ?cl (parseSize limit) \<Longrightarrow> truthy ?cl"
    using greater_nonneg_truthy [OF parseSize_nonneg] .
  then show ?thesis
    unfolding requestSizeLimiter_def
    by (auto simp: Let_def res_json_def res_status_def call_next_def)
qed

text \<open>
  With the limit \<open>1kb\<close>: a declared length of 1025 is refused, 1024 passes, and so does
  a request without the header.
\<close>

theorem requestSizeLimiter_contract_witness:
  "(let over = requestSizeLimiter (Some ''1kb'')
                 \<lparr>path = ''/upload'', req_headers = [''content-length'' \<mapsto> ''1025'']\<rparr> fresh_response;
        exact = requestSizeLimiter (Some ''1kb'')
                 \<lparr>path = ''/upload'', req_headers = [''content-length'' \<mapsto> ''1024'']\<rparr> fresh_response;
        absent = requestSizeLimiter (Some ''1kb'')
                 \<lparr>path = ''/upload'', req_headers = Map.empty\<rparr> fresh_response
    in statusCode over = 413 \<and> nextCalls over = 0 \<and>
       jsonSent over = [JObject [(''success'', JBool False),
                                 (''error'', JString ''Request entity too large''),
                                 (''maxSize'', JString ''1kb'')]] \<and>
       exact = fresh_response\<lparr>nextCalls := 1\<rparr> \<and> absent = fresh_response\<lparr>nextCalls := 1\<rparr>)"
proof -
  have a: "parseSize ''1kb'' = Finite 1024" by (rule parseSize_1kb)
  have b: "parseInt ''1025'' = Finite 1025" by (simp add: parse_eval number_eval)
  have c: "parseInt ''1024'' = Finite 1024" by (simp add: parse_eval number_eval)
  have d: "parseInt ''undefined'' = NaN" by (simp add: parse_eval number_eval)
  show ?thesis
    using a b c d
      requestSizeLimiter_contract [of "''1kb''"
        "\<lparr>path = ''/upload'', req_headers = [''content-length'' \<mapsto> ''1025'']\<rparr>" fresh_response]
      requestSizeLimiter_contract [of "''1kb''"
        "\<lparr>path = ''/upload'', req_headers = [''content-length'' \<mapsto> ''1024'']\<rparr>" fresh_response]
      requestSizeLimiter_contract [of "''1kb''"
        "\<lparr>path = ''/upload'', req_headers = Map.empty\<rparr>" fresh_response]
    by (simp add: Let_def to_string_def greater_def fresh_response_def)
qed

section \<open>Properties of batchProcess\<close>

lemma Promise_all_fulfilled:
  assumes "\<forall>x \<in> set xs. processor x = Fulfills (delay x) (f x)"
  shows "\<exists>t. Promise_all (map processor xs) = Fulfills t (map f xs)"
proof -
  have m: "map processor xs = map (\<lambda>x. Fulfills (delay x) (f x)) xs"
    using assms by (simp cong: map_cong)
  have "first_rejection (map (\<lambda>x. Fulfills (delay x) (f x)) xs) = None"
    by (induction xs) simp_all
  moreover have "\<exists>t. all_values (map (\<lambda>x. Fulfills (delay x) (f x)) xs) = Some (t, map f xs)"
    by (induction xs) auto
  ultimately show ?thesis unfolding m by (auto simp: Promise_all_def)
qed

lemma set_slice: "set (slice xs i j) \<subseteq> set xs"
proof -
  have "set (take n (drop k xs)) \<subseteq> set xs" for n k
    using set_take_subset [of n "drop k xs"] set_drop_subset [of k xs] by blast
  then show ?thesis by (simp add: slice_def Let_def)
qed




lemma batch_loop_terminates:
  assumes "1 \<le> b" "0 \<le> i"
  shows "batch_loop processor items b i results now \<noteq> None"
  using assms(2)
proof (induction "length items - nat i" arbitrary: i results now rule: less_induct)
  case less
  show ?case
  proof (cases "i < int (length items)")
    case False
    then show ?thesis by (subst batch_loop.simps) simp
  next
    case True
    have "length items - nat (i + b) < length items - nat i" "0 \<le> i + b"
      using True less.prems assms(1) by auto
    from less.hyps [OF this] True show ?thesis
      by (subst batch_loop.simps) (simp split: promise.splits)
  qed
qed

lemma Promise_all_Nil: "Promise_all [] = Fulfills 0 []"
  by (simp add: Promise_all_def)

lemma slice_empty_chunk: "slice xs i i = []"
  by (auto simp: slice_def Let_def min_def max_def)

lemma slice_negative: "i < 0 \<Longrightarrow> b \<le> 0 \<Longrightarrow> slice xs i (i + b) = []"
  by (auto simp: slice_def Let_def min_def max_def)

text \<open>
  With a batch size of zero or below the loop variable never reaches the length of a
  non-empty array: no result is ever returned.
\<close>

lemma batch_loop_zero_aux:
  fixes processor :: "'a \<Rightarrow> 'b promise"
  assumes "batch_loop processor items b i results now = Some y"
  shows "\<not> (b = 0 \<and> i < int (length items))"
proof (rule batch_loop.raw_induct
    [where P = "\<lambda>processor items b i results now y. \<not> (b = 0 \<and> i < int (length items))",
     OF _ assms])
  fix loop :: "('a \<Rightarrow> 'b promise) \<Rightarrow> 'a list \<Rightarrow> int \<Rightarrow> int \<Rightarrow> 'b list \<Rightarrow> nat \<Rightarrow> 'b list promise option"
  fix processor items b i results now y
  assume IH: "\<And>processor items b i results now y.
      loop processor items b i results now = Some y \<Longrightarrow> \<not> (b = 0 \<and> i < int (length items))"
  assume eq: "(if i < int (length items) then
        (case Promise_all (map processor (slice items i (i + b))) of
           Pending \<Rightarrow> Some Pending
         | Fulfills t batchResults \<Rightarrow>
             loop processor items b (i + b) (results @ batchResults) (now + t)
         | Rejects t e \<Rightarrow> Some (Rejects (now + t) e))
      else Some (Fulfills now results)) = Some y"
  show "\<not> (b = 0 \<and> i < int (length items))"
  proof
    assume a: "b = 0 \<and> i < int (length items)"
    with eq have "loop processor items b (i + b) (results @ []) (now + 0) = Some y"
      by (simp add: Promise_all_Nil slice_empty_chunk)
    from IH [OF this] a show False by simp
  qed
qed

lemma batch_loop_zero:
  "i < int (length items) \<Longrightarrow> batch_loop processor items 0 i results now = None"
  using batch_loop_zero_aux [of processor items 0 i results now]
  by (cases "batch_loop processor items 0 i results now") auto

lemma batch_loop_negative_aux:
  fixes processor :: "'a \<Rightarrow> 'b promise"
  assumes "batch_loop processor items b i results now = Some y"
  shows "\<not> ((\<forall>x \<in> set items. processor x = Fulfills (delay x) (f x)) \<and> b \<le> 0 \<and> i \<le> 0 \<and>
            items \<noteq> [])"
proof (rule batch_loop.raw_induct
    [where P = "\<lambda>processor items b i results now y.
       \<not> ((\<forall>x \<in> set items. processor x = Fulfills (delay x) (f x)) \<and> b \<le> 0 \<and> i \<le> 0 \<and>
          items \<noteq> [])",
     OF _ assms])
  fix loop :: "('a \<Rightarrow> 'b promise) \<Rightarrow> 'a list \<Rightarrow> int \<Rightarrow> int \<Rightarrow> 'b list \<Rightarrow> nat \<Rightarrow> 'b list promise option"
  fix processor items b i results now y
  assume IH: "\<And>processor items b i results now y.
      loop processor items b i results now = Some y \<Longrightarrow>
      \<not> ((\<forall>x \<in> set items. processor x = Fulfills (delay x) (f x)) \<and> b \<le> 0 \<and> i \<le> 0 \<and>
         items \<noteq> [])"
  assume eq: "(if i < int (length items) then
        (case Promise_all (map processor (slice items i (i + b))) of
           Pending \<Rightarrow> Some Pending
         | Fulfills t batchResults \<Rightarrow>
             loop processor items b (i + b) (results @ batchResults) (now + t)
         | Rejects t e \<Rightarrow> Some (Rejects (now + t) e))
      else Some (Fulfills now results)) = Some y"
  show "\<not> ((\<forall>x \<in> set items. processor x = Fulfills (delay x) (f x)) \<and> b \<le> 0 \<and> i \<le> 0 \<and>
            items \<noteq> [])"
  proof
    assume a: "(\<forall>x \<in> set items. processor x = Fulfills (delay x) (f x)) \<and> b \<le> 0 \<and> i \<le> 0 \<and>
        items \<noteq> []"
    then have lt: "i < int (length items)" by (cases items) auto
    have "\<forall>x \<in> set (slice items i (i + b)). processor x = Fulfills (delay x) (f x)"
      using a set_slice [of items i "i + b"] by blast
    from Promise_all_fulfilled [OF this] obtain t where
      "Promise_all (map processor (slice items i (i + b))) =
        Fulfills t (map f (slice items i (i + b)))"
      by blast
    with lt eq have
      "loop processor items b (i + b) (results @ map f (slice items i (i + b))) (now + t) = Some y"
      by simp
    from IH [OF this] a show False by simp
  qed
qed

lemma batch_loop_negative:
  assumes "b \<le> 0" "i \<le> 0" "items \<noteq> []"
    "\<forall>x \<in> set items. processor x = Fulfills (delay x) (f x)"
  shows "batch_loop processor items b i results now = None"
  using batch_loop_negative_aux [of processor items b i results now _ delay f] assms
  by (cases "batch_loop processor items b i results now") auto



text \<open>
  Claim C10.  For a batch size of at least 1 the loop ends, whatever the processor does.
  The bound is needed: on a non-empty array the loop runs for ever with the batch size 0,
  and with a negative batch size as soon as the processor's promises fulfil.
\<close>

theorem batchProcess_termination:
  "(1 \<le> batchSize \<longrightarrow> batchProcess items (Some batchSize) processor \<noteq> None) \<and>
   (items \<noteq> [] \<longrightarrow> batchProcess items (Some 0) processor = None) \<and>
   (items \<noteq> [] \<and> batchSize \<le> 0 \<and> (\<forall>x \<in> set items. processor x = Fulfills (delay x) (f x)) \<longrightarrow>
      batchProcess items (Some batchSize) processor = None)"
proof (intro conjI impI)
  assume "1 \<le> batchSize"
  then show "batchProcess items (Some batchSize) processor \<noteq> None"
    unfolding batchProcess_def using batch_loop_terminates [of batchSize 0] by simp
next
  assume "items \<noteq> []"
  then show "batchProcess items (Some 0) processor = None"
    unfolding batchProcess_def using batch_loop_zero [of 0 items] by (cases items) auto
next
  assume "items \<noteq> [] \<and> batchSize \<le> 0 \<and>
    (\<forall>x \<in> set items. processor x = Fulfills (delay x) (f x))"
  then show "batchProcess items (Some batchSize) processor = None"
    unfolding batchProcess_def
    using batch_loop_negative [of batchSize 0 items processor delay f] by simp
qed

text \<open>Three items: batch size 2 with a rejecting processor, batch sizes 0 and -1.\<close>

theorem batchProcess_termination_witness:
  "(1::int) \<le> 2 \<and>
   batchProcess [1, 2, 3 :: int] (Some 2) (\<lambda>x. Rejects 0 (Error ''no'') :: int promise) \<noteq> None \<and>
   [1, 2, 3 :: int] \<noteq> [] \<and>
   batchProcess [1, 2, 3 :: int] (Some 0) (\<lambda>x. Rejects 0 (Error ''no'') :: int promise) = None \<and>
   (- 1 :: int) \<le> 0 \<and>
   batchProcess [1, 2, 3 :: int] (Some (- 1)) (\<lambda>x. Fulfills 0 (x * 2)) = None"
  using batchProcess_termination
      [where batchSize = 2 and items = "[1, 2, 3 :: int]"
         and processor = "\<lambda>x. Rejects 0 (Error ''no'') :: int promise"]
    batchProcess_termination
      [where batchSize = "- 1" and items = "[1, 2, 3 :: int]"
         and processor = "\<lambda>x. Fulfills 0 (x * 2)" and delay = "\<lambda>x. 0" and f = "\<lambda>x. x * 2"]
  by auto

section \<open>Properties of withTimeout\<close>

text \<open>
  Claim C6.  When the timer fires before the promise settles (the promise settles later
  or never), \<open>withTimeout\<close> rejects, at the instant the timer fires, with the error
  \<open>Operation timed out after <timeoutMs>ms\<close>.  When the promise fulfils before the timer
  fires, \<open>withTimeout\<close> fulfils with the promise's value at that instant.  With a
  punctual timer, an operation that resolves after 50 ms is rejected under a bound of
  10 ms and resolves under a bound of 100 ms.
\<close>

theorem withTimeout_contract:
  "(timeoutMs < 10 ^ 21 \<and> (case settle_time promise of None \<Rightarrow> True | Some t \<Rightarrow> fires < t) \<longrightarrow>
      withTimeout fires promise (Some timeoutMs) =
        Rejects fires (Error (''Operation timed out after '' @ decimal timeoutMs @ ''ms''))) \<and>
   (t < fires \<longrightarrow> withTimeout fires (Fulfills t v) (Some timeoutMs) = Fulfills t v) \<and>
   withTimeout 10 (Fulfills 50 v) (Some 10) =
     Rejects 10 (Error ''Operation timed out after 10ms'') \<and>
   withTimeout 100 (Fulfills 50 v) (Some 100) = Fulfills 50 v"
proof (intro conjI impI)
  assume "timeoutMs < 10 ^ 21 \<and> (case settle_time promise of None \<Rightarrow> True | Some t \<Rightarrow> fires < t)"
  then show "withTimeout fires promise (Some timeoutMs) =
        Rejects fires (Error (''Operation timed out after '' @ decimal timeoutMs @ ''ms''))"
    by (cases promise) (simp_all add: withTimeout_def)
next
  assume "t < fires"
  then show "withTimeout fires (Fulfills t v) (Some timeoutMs) = Fulfills t v"
    by (simp add: withTimeout_def)
next
  have "decimal 10 = ''10''" by (simp add: decimal.simps)
  then show "withTimeout 10 (Fulfills 50 v) (Some 10) =
     Rejects 10 (Error ''Operation timed out after 10ms'')"
    by (simp add: withTimeout_def)
next
  show "withTimeout 100 (Fulfills 50 v) (Some 100) = Fulfills 50 v"
    by (simp add: withTimeout_def)
qed

text \<open>
  A bound of 250 ms whose timer fires at 251: a promise that never settles and one that
  rejects at 300 both time out; one that fulfils at 7 keeps its value.
\<close>

theorem withTimeout_contract_witness:
  "(250::nat) < 10 ^ 21 \<and>
   withTimeout 251 (Pending :: int promise) (Some 250) =
     Rejects 251 (Error ''Operation timed out after 250ms'') \<and>
   withTimeout 251 (Rejects 300 (Error ''late'') :: int promise) (Some 250) =
     Rejects 251 (Error ''Operation timed out after 250ms'') \<and>
   withTimeout 251 (Fulfills 7 (42 :: int)) (Some 250) = Fulfills 7 42"
proof -
  have d: "decimal 250 = ''250''" by (simp add: decimal.simps)
  show ?thesis
    using d
      withTimeout_contract [where timeoutMs = 250 and promise = "Pending :: int promise"
        and fires = 251 and t = 7 and v = "42 :: int"]
      withTimeout_contract [where timeoutMs = 250
        and promise = "Rejects 300 (Error ''late'') :: int promise" and fires = 251 and t = 7
        and v = "42 :: int"]
    by simp
qed

section \<open>Properties of withDatabase\<close>

lemma withDatabase_connect_fails:
  assumes "connectToDatabase outcome d = (Throw e, d1)"
  shows "withDatabase fn outcome req (d, res) =
     (Return ResponseObject,
      (console_out (ErrorDatabaseOperation e) d1,
       res\<lparr>statusCode := 500, jsonSent := jsonSent res @ [database_error_body e]\<rparr>))"
  using assms by (simp add: withDatabase_def database_catch_def res_json_def res_status_def)

lemma withDatabase_handler_throws:
  assumes "connectToDatabase outcome d = (Return c, d1)" "fn req (d1, res) = (Throw e, (d2, res2))"
  shows "withDatabase fn outcome req (d, res) =
     (Return ResponseObject,
      (console_out (ErrorDatabaseOperation e) d2,
       res2\<lparr>statusCode := 500, jsonSent := jsonSent res2 @ [database_error_body e]\<rparr>))"
  using assms by (simp add: withDatabase_def database_catch_def res_json_def res_status_def)

lemma boom_handler_throws: "boom_handler req w = (Throw (Error ''boom''), w)"
  by (simp add: boom_handler_def and_then_def throw_def)

text \<open>
  Claim C1.  When \<open>connectToDatabase\<close> throws \<open>e\<close>, the wrapper sets the status 500 and
  sends \<open>{success: false, error: "Database operation failed", message: e.message}\<close>,
  whatever the handler is: the handler is not called.  When the connection succeeds and
  the handler throws \<open>e\<close>, the wrapper does the same on the response as the handler left
  it.  In both cases the wrapper itself returns normally.  The handler that throws
  \<open>Error("boom")\<close> before its success answer gets the message \<open>boom\<close>, and the success
  answer is never sent.
\<close>

theorem withDatabase_error_envelope:
  "(connectToDatabase outcome d = (Throw e, d1) \<longrightarrow>
      withDatabase fn outcome req (d, res) =
        (Return ResponseObject,
         (console_out (ErrorDatabaseOperation e) d1,
          res\<lparr>statusCode := 500,
              jsonSent := jsonSent res @
                [JObject [(''success'', JBool False),
                          (''error'', JString ''Database operation failed''),
                          (''message'', JString (message e))]]\<rparr>))) \<and>
   (connectToDatabase outcome d = (Return c, d1) \<and> fn req (d1, res) = (Throw e, (d2, res2)) \<longrightarrow>
      withDatabase fn outcome req (d, res) =
        (Return ResponseObject,
         (console_out (ErrorDatabaseOperation e) d2,
          res2\<lparr>statusCode := 500,
               jsonSent := jsonSent res2 @
                 [JObject [(''success'', JBool False),
                           (''error'', JString ''Database operation failed''),
                           (''message'', JString (message e))]]\<rparr>))) \<and>
   (connectToDatabase outcome d = (Return c, d1) \<longrightarrow>
      withDatabase boom_handler outcome req (d, res) =
        (Return ResponseObject,
         (console_out (ErrorDatabaseOperation (Error ''boom'')) d1,
          res\<lparr>statusCode := 500,
              jsonSent := jsonSent res @
                [JObject [(''success'', JBool False),
                          (''error'', JString ''Database operation failed''),
                          (''message'', JString ''boom'')]]\<rparr>)))"
proof (intro conjI impI)
  assume "connectToDatabase outcome d = (Throw e, d1)"
  from withDatabase_connect_fails [OF this, of fn req res]
  show "withDatabase fn outcome req (d, res) =
        (Return ResponseObject,
         (console_out (ErrorDatabaseOperation e) d1,
          res\<lparr>statusCode := 500,
              jsonSent := jsonSent res @
                [JObject [(''success'', JBool False),
                          (''error'', JString ''Database operation failed''),
                          (''message'', JString (message e))]]\<rparr>))"
    by (simp only: database_error_body_def)
next
  assume "connectToDatabase outcome d = (Return c, d1) \<and> fn req (d1, res) = (Throw e, (d2, res2))"
  then have a: "connectToDatabase outcome d = (Return c, d1)" "fn req (d1, res) = (Throw e, (d2, res2))"
    by simp_all
  from withDatabase_handler_throws [of outcome d c d1 fn req res e d2 res2] a
  show "withDatabase fn outcome req (d, res) =
        (Return ResponseObject,
         (console_out (ErrorDatabaseOperation e) d2,
          res2\<lparr>statusCode := 500,
               jsonSent := jsonSent res2 @
                 [JObject [(''success'', JBool False),
                           (''error'', JString ''Database operation failed''),
                           (''message'', JString (message e))]]\<rparr>))"
    by (simp only: database_error_body_def)
next
  assume a: "connectToDatabase outcome d = (Return c, d1)"
  have b: "boom_handler req (d1, res) = (Throw (Error ''boom''), (d1, res))"
    by (rule boom_handler_throws)
  have m: "message (Error ''boom'') = ''boom''" by simp
  from withDatabase_handler_throws [of outcome d c d1 boom_handler req res "Error ''boom''" d1 res] a b
  show "withDatabase boom_handler outcome req (d, res) =
        (Return ResponseObject,
         (console_out (ErrorDatabaseOperation (Error ''boom'')) d1,
          res\<lparr>statusCode := 500,
              jsonSent := jsonSent res @
                [JObject [(''success'', JBool False),
                          (''error'', JString ''Database operation failed''),
                          (''message'', JString ''boom'')]]\<rparr>))"
    by (simp only: database_error_body_def m)
qed

text \<open>
  The freshly loaded module and a fresh response, once with a driver that refuses the
  connection and once with a handler that throws.
\<close>

theorem withDatabase_error_envelope_witness:
  "(let req = \<lparr>path = ''/api/items'', req_headers = Map.empty\<rparr>;
        down = snd (snd (withDatabase boom_handler (ConnectRejects (Error ''ECONNREFUSED'')) req
                 (initial_state, fresh_response)));
        boom = snd (snd (withDatabase boom_handler (ConnectResolves (Handle 1)) req
                 (initial_state, fresh_response)))
    in statusCode down = 500 \<and>
       jsonSent down = [JObject [(''success'', JBool False),
                                 (''error'', JString ''Database operation failed''),
                                 (''message'', JString ''ECONNREFUSED'')]] \<and>
       statusCode boom = 500 \<and>
       jsonSent boom = [JObject [(''success'', JBool False),
                                 (''error'', JString ''Database operation failed''),
                                 (''message'', JString ''boom'')]] \<and>
       nextCalls boom = 0)"
proof -
  let ?req = "\<lparr>path = ''/api/items'', req_headers = Map.empty\<rparr>"
  let ?down = "connectToDatabase (ConnectRejects (Error ''ECONNREFUSED'')) initial_state"
  let ?up = "connectToDatabase (ConnectResolves (Handle 1)) initial_state"
  have a: "?down = (Throw (Error ''ECONNREFUSED''), snd ?down)"
    by (simp add: connectToDatabase_def establish_def mongoose_connect_def initial_state_def
          console_out_def Let_def)
  have b: "?up = (Return (Some (Handle 1)), snd ?up)"
    by (simp add: connectToDatabase_def establish_def mongoose_connect_def initial_state_def
          mongoose_connection_on_def console_out_def Let_def)
  from a have c: "withDatabase boom_handler (ConnectRejects (Error ''ECONNREFUSED'')) ?req
        (initial_state, fresh_response) =
      (Return ResponseObject,
       (console_out (ErrorDatabaseOperation (Error ''ECONNREFUSED'')) (snd ?down),
        fresh_response\<lparr>statusCode := 500,
          jsonSent := jsonSent fresh_response @
            [JObject [(''success'', JBool False),
                      (''error'', JString ''Database operation failed''),
                      (''message'', JString (message (Error ''ECONNREFUSED'')))]]\<rparr>))"
    using withDatabase_error_envelope
      [where outcome = "ConnectRejects (Error ''ECONNREFUSED'')" and d = initial_state
         and e = "Error ''ECONNREFUSED''" and ?d1.0 = "snd ?down" and fn = boom_handler
         and req = ?req and res = fresh_response]
    by blast
  from b have d: "withDatabase boom_handler (ConnectResolves (Handle 1)) ?req
        (initial_state, fresh_response) =
      (Return ResponseObject,
       (console_out (ErrorDatabaseOperation (Error ''boom'')) (snd ?up),
        fresh_response\<lparr>statusCode := 500,
          jsonSent := jsonSent fresh_response @
            [JObject [(''success'', JBool False),
                      (''error'', JString ''Database operation failed''),
                      (''message'', JString ''boom'')]]\<rparr>))"
    using withDatabase_error_envelope
      [where outcome = "ConnectResolves (Handle 1)" and d = initial_state
         and c = "Some (Handle 1)" and ?d1.0 = "snd ?up" and req = ?req and res = fresh_response]
    by blast
  show ?thesis
    unfolding Let_def c d by (simp add: fresh_response_def)
qed

end
